theory Spec2Isabelle
  imports Main "HOL-Library.List_Lexorder" "HOL-Library.AList"
begin

section \<open>Python strings\<close>

text \<open>
  Both scripts work on Python \<open>str\<close> values: sequences of Unicode code points. A string
  is modelled as the list of its code points, so that \<open>length\<close>, comparison and the
  character classes of the regular expressions mean what they mean in Python. \<open>py\<close>
  turns a literal of the source into that representation.
\<close>

type_synonym str = "nat list"

abbreviation py :: "string \<Rightarrow> str" where
  "py s \<equiv> map of_char s"

text \<open>\<open>s.startswith(p)\<close>\<close>

definition startswith :: "str \<Rightarrow> str \<Rightarrow> bool" where
  "startswith s p = (take (length p) s = p)"

text \<open>\<open>p in s\<close> for two strings: \<open>p\<close> occurs in \<open>s\<close> as a contiguous substring.\<close>

fun str_in :: "str \<Rightarrow> str \<Rightarrow> bool" where
  "str_in p [] = (p = [])"
| "str_in p (c # cs) = (startswith (c # cs) p \<or> str_in p cs)"

text \<open>
  The characters \<open>str.strip()\<close> removes and \<open>\s\<close> matches in a \<open>str\<close> pattern: the
  code points for which \<open>str.isspace\<close> holds.
\<close>

definition is_space :: "nat \<Rightarrow> bool" where
  "is_space c = ((0x09 \<le> c \<and> c \<le> 0x0D) \<or> (0x1C \<le> c \<and> c \<le> 0x20) \<or> c = 0x85 \<or> c = 0xA0
     \<or> c = 0x1680 \<or> (0x2000 \<le> c \<and> c \<le> 0x200A) \<or> c = 0x2028 \<or> c = 0x2029
     \<or> c = 0x202F \<or> c = 0x205F \<or> c = 0x3000)"

definition strip :: "str \<Rightarrow> str" where
  "strip s = rev (dropWhile is_space (rev (dropWhile is_space s)))"

text \<open>\<open>s.split('\n')\<close>: always at least one piece; the separator is code point 10.\<close>

fun split_nl :: "str \<Rightarrow> str list" where
  "split_nl [] = [[]]"
| "split_nl (c # cs) =
     (if c = 10 then [] # split_nl cs
      else (case split_nl cs of [] \<Rightarrow> [[c]] | w # ws \<Rightarrow> (c # w) # ws))"

text \<open>\<open>sep.join(xs)\<close>\<close>

fun join :: "str \<Rightarrow> str list \<Rightarrow> str" where
  "join sep [] = []"
| "join sep [x] = x"
| "join sep (x # y # ys) = x @ sep @ join sep (y # ys)"

text \<open>
  \<open>str.lower()\<close> on ASCII text. The sync checker lowers only what its third pattern
  captured, and that pattern captures ASCII characters only (lemma \<open>match_bold_chars\<close>).
\<close>

definition ascii_lower :: "nat \<Rightarrow> nat" where
  "ascii_lower c = (if 65 \<le> c \<and> c \<le> 90 then c + 32 else c)"


section \<open>The three patterns of the sync checker\<close>

text \<open>
  \<open>re.findall(pattern, content)\<close> with one capture group scans the text from left to
  right: at each position it tries the pattern; a match contributes its group and the
  scan resumes behind the match, a failure moves the scan one character on. A pattern is
  modelled by its matcher at the head of the remaining text, which returns the captured
  group and the length of the whole match. The counter of \<open>scan\<close> is the number of
  characters still covered by the previous match. None of the three patterns matches the
  empty string, so there is nothing to find at the end of the text.
\<close>

type_synonym matcher = "str \<Rightarrow> (str \<times> nat) option"

fun scan :: "matcher \<Rightarrow> nat \<Rightarrow> str \<Rightarrow> str list" where
  "scan m k [] = []"
| "scan m (Suc k) (c # cs) = scan m k cs"
| "scan m 0 (c # cs) =
     (case m (c # cs) of
        None \<Rightarrow> scan m 0 cs
      | Some (tok, n) \<Rightarrow> tok # scan m (n - 1) cs)"

definition findall :: "matcher \<Rightarrow> str \<Rightarrow> str list" where
  "findall m content = scan m 0 content"

text \<open>The class \<open>[a-z0-9-]\<close> as written: lower-case ASCII letters, digits, the hyphen.\<close>

definition name_char :: "nat \<Rightarrow> bool" where
  "name_char c = ((97 \<le> c \<and> c \<le> 122) \<or> (48 \<le> c \<and> c \<le> 57) \<or> c = 45)"

text \<open>
  The same class under \<open>re.IGNORECASE\<close>. For a \<open>str\<close> pattern Python matches the 52 ASCII
  letters and four more letters whose case folding is an ASCII letter: U+0130, U+0131,
  U+017F and U+212A.
\<close>

definition name_char_ic :: "nat \<Rightarrow> bool" where
  "name_char_ic c = (name_char c \<or> (65 \<le> c \<and> c \<le> 90)
     \<or> c = 0x130 \<or> c = 0x131 \<or> c = 0x17F \<or> c = 0x212A)"

text \<open>
  A literal character \<open>p\<close> of the pattern (lower-case or without case) against a character
  \<open>c\<close> of the text, under \<open>re.IGNORECASE\<close>.
\<close>

definition lit_ic :: "nat \<Rightarrow> nat \<Rightarrow> bool" where
  "lit_ic p c = (c = p \<or> (97 \<le> p \<and> p \<le> 122 \<and> c + 32 = p)
     \<or> (p = 105 \<and> (c = 0x130 \<or> c = 0x131))
     \<or> (p = 115 \<and> c = 0x17F)
     \<or> (p = 107 \<and> c = 0x212A))"

text \<open>A literal string of the pattern at the head of the text; the rest of the text.\<close>

fun match_lit_ic :: "str \<Rightarrow> str \<Rightarrow> str option" where
  "match_lit_ic [] s = Some s"
| "match_lit_ic (p # ps) [] = None"
| "match_lit_ic (p # ps) (c # cs) = (if lit_ic p c then match_lit_ic ps cs else None)"

text \<open>
  \<open>r'/plugin install ([a-z0-9-]+)'\<close> with \<open>re.IGNORECASE\<close>. The group is greedy and
  nothing follows it, so it is the longest run of class characters behind the literal.
\<close>

definition match_install :: matcher where
  "match_install s =
     (case match_lit_ic (py ''/plugin install '') s of
        None \<Rightarrow> None
      | Some rest \<Rightarrow>
          (let tok = takeWhile name_char_ic rest
           in if tok = [] then None else Some (tok, 16 + length tok)))"

text \<open>
  \<open>r'([a-z0-9-]+)@'\<close> with \<open>re.IGNORECASE\<close>. The group takes the longest run of class
  characters; \<open>@\<close> is not in the class, so no shorter run can be followed by it and
  backtracking finds nothing more.
\<close>

definition match_at :: matcher where
  "match_at s =
     (let tok = takeWhile name_char_ic s
      in if tok \<noteq> [] \<and> startswith (drop (length tok) s) (py ''@'')
         then Some (tok, length tok + 1) else None)"

text \<open>The class \<open>[A-Za-z0-9 -]\<close> (no flag: ASCII only).\<close>

definition bold_char :: "nat \<Rightarrow> bool" where
  "bold_char c = ((65 \<le> c \<and> c \<le> 90) \<or> (97 \<le> c \<and> c \<le> 122) \<or> (48 \<le> c \<and> c \<le> 57)
     \<or> c = 32 \<or> c = 45)"

text \<open>
  \<open>r'\*\*([A-Za-z0-9 -]+)\*\*\s*-'\<close>. Neither \<open>*\<close> is in the class nor is \<open>-\<close> a space, so
  again only the longest runs can match.
\<close>

definition match_bold :: matcher where
  "match_bold s =
     (if startswith s (py ''**'') then
        (let name = takeWhile bold_char (drop 2 s);
             rest = drop (2 + length name) s
         in if name \<noteq> [] \<and> startswith rest (py ''**'') then
              (let sp = takeWhile is_space (drop 2 rest)
               in if startswith (drop (2 + length sp) rest) (py ''-'')
                  then Some (name, 2 + length name + 2 + length sp + 1) else None)
            else None)
      else None)"

text \<open>\<open>name.lower().replace(' ', '-')\<close>\<close>

definition kebab :: "str \<Rightarrow> str" where
  "kebab name = map (\<lambda>c. if c = 32 then 45 else c) (map ascii_lower name)"

definition false_positives :: "str set" where
  "false_positives = {py ''claude-code-marketplace'', py ''marketplace'', py ''your-org'',
     py ''test'', py ''my-first-plugin'', py ''my-plugin'', py ''dev-marketplace'',
     py ''plugin-name''}"

text \<open>
  \<open>extract_plugin_names_from_markdown\<close>: the set is built up as the source does, by two
  \<open>update\<close>s and a loop of \<open>add\<close>s, then the false positives are taken away.
\<close>

definition extract_plugin_names_from_markdown :: "str \<Rightarrow> str set" where
  "extract_plugin_names_from_markdown content =
     (let plugin_names = {};
          install_patterns = findall match_install content;
          plugin_names = plugin_names \<union> set install_patterns;
          at_patterns = findall match_at content;
          plugin_names = plugin_names \<union> set at_patterns;
          bold_patterns = findall match_bold content;
          plugin_names = fold (\<lambda>name acc. insert (kebab name) acc) bold_patterns plugin_names
      in plugin_names - false_positives)"


section \<open>JSON values and the repository tree\<close>

text \<open>
  What \<open>json.load\<close> returns. A \<open>dict\<close> is an association list read with \<open>map_of\<close>.
  Neither script reads the value of a number; a \<open>float\<close> carries none.
\<close>

datatype json =
    JNull
  | JBool bool
  | JInt int
  | JFloat
  | JStr str
  | JArr "json list"
  | JObj "(str \<times> json) list"

text \<open>\<open>type(x).__name__\<close>, as it appears in the text of a TypeError or AttributeError.\<close>

fun type_name :: "json \<Rightarrow> str" where
  "type_name JNull = py ''NoneType''"
| "type_name (JBool b) = py ''bool''"
| "type_name (JInt i) = py ''int''"
| "type_name JFloat = py ''float''"
| "type_name (JStr s) = py ''str''"
| "type_name (JArr xs) = py ''list''"
| "type_name (JObj kv) = py ''dict''"

text \<open>A string between single quotes (code point 39), as the f-strings and Python's
  own exception texts write it.\<close>

definition quoted :: "str \<Rightarrow> str" where
  "quoted s = [39] @ s @ [39]"

text \<open>The text of the AttributeError of \<open>data.get\<close> when \<open>data\<close> is not a dict.\<close>

definition no_attribute_get :: "json \<Rightarrow> str" where
  "no_attribute_get data = quoted (type_name data) @ py '' object has no attribute '' @ quoted (py ''get'')"

text \<open>
  The outcome of \<open>with open(path, 'r', encoding='utf-8') as f: json.load(f)\<close>: the
  value, a \<open>json.JSONDecodeError\<close> with its text, or any other exception with its text
  (the file cannot be opened, or is not UTF-8).
\<close>

datatype load_result =
    Loaded json
  | JSONDecodeError str
  | OtherError str

text \<open>
  A file is represented by the outcome of loading it as JSON, a directory by its entries
  (name and node) in the order in which \<open>iterdir\<close> yields them.
\<close>

datatype node =
    File load_result
  | Dir "(str \<times> node) list"

fun is_dir :: "node \<Rightarrow> bool" where
  "is_dir (Dir es) = True"
| "is_dir (File r) = False"

fun child :: "node \<Rightarrow> str \<Rightarrow> node option" where
  "child (Dir es) n = map_of es n"
| "child (File r) n = None"

text \<open>
  \<open>(d / a / b).exists()\<close> is \<open>resolve d [a, b] \<noteq> None\<close>; a path through a file does not
  exist.
\<close>

fun resolve :: "node \<Rightarrow> str list \<Rightarrow> node option" where
  "resolve d [] = Some d"
| "resolve d (n # ns) = (case child d n of None \<Rightarrow> None | Some d' \<Rightarrow> resolve d' ns)"

text \<open>
  Opening a directory raises IsADirectoryError, which is not a JSONDecodeError. Its text
  also names the absolute path, which the model does not track.
\<close>

fun load_json :: "node \<Rightarrow> load_result" where
  "load_json (File r) = r"
| "load_json (Dir es) = OtherError (py ''[Errno 21] Is a directory'')"

text \<open>\<open>dir_path.glob("*" + suffix)\<close>: the entries whose name ends with the suffix;
  nothing when the path is not a directory.\<close>

definition endswith :: "str \<Rightarrow> str \<Rightarrow> bool" where
  "endswith s p = (length p \<le> length s \<and> drop (length s - length p) s = p)"

fun glob_suffix :: "str \<Rightarrow> node \<Rightarrow> (str \<times> node) list" where
  "glob_suffix sfx (Dir es) = filter (\<lambda>e. endswith (fst e) sfx) es"
| "glob_suffix sfx (File r) = []"

text \<open>Exceptions that neither script catches: they end the run.\<close>

datatype exn =
    NotADirectoryError
  | Uncaught str


section \<open>Reports\<close>

text \<open>
  Both classes keep \<open>self.errors\<close> and \<open>self.warnings\<close>; the schema validator also keeps
  \<open>self.validated_plugins\<close>. What the scripts print, and the annotations of
  \<open>github_error\<close> and \<open>github_warning\<close>, are output only and not part of the state.
\<close>

record report =
  errors :: "str list"
  warnings :: "str list"

record vstate = report +
  validated_plugins :: "str set"

definition add_error :: "str \<Rightarrow> 'a report_scheme \<Rightarrow> 'a report_scheme" where
  "add_error msg st = st\<lparr>errors := errors st @ [msg]\<rparr>"

definition add_warning :: "str \<Rightarrow> 'a report_scheme \<Rightarrow> 'a report_scheme" where
  "add_warning msg st = st\<lparr>warnings := warnings st @ [msg]\<rparr>"

text \<open>The recurring step \<open>if bad: self.errors.append(msg); is_valid = False\<close>.\<close>

definition fail_if :: "bool \<Rightarrow> str \<Rightarrow> 'a report_scheme \<times> bool \<Rightarrow> 'a report_scheme \<times> bool" where
  "fail_if bad msg s = (if bad then (add_error msg (fst s), False) else s)"


section \<open>The sync checker\<close>

record plugin_info =
  info_name :: json
  info_description :: json
  info_version :: json
  info_path :: str

text \<open>\<open>plugin_data.get(key, default)\<close> on a dict.\<close>

definition dict_get :: "(str \<times> json) list \<Rightarrow> str \<Rightarrow> json \<Rightarrow> json" where
  "dict_get kv k dflt = (case map_of kv k of None \<Rightarrow> dflt | Some v \<Rightarrow> v)"

definition could_not_read :: "str \<Rightarrow> str \<Rightarrow> str" where
  "could_not_read dir_name e = py ''Could not read plugin.json for '' @ dir_name @ py '': '' @ e"

text \<open>
  The body of the \<open>try\<close> of \<open>get_plugin_list\<close>: the entry of the plugin, or the text of
  the exception. \<open>except (json.JSONDecodeError, Exception)\<close> catches everything raised
  while the manifest is read, and the AttributeError of \<open>plugin_data.get\<close> when the
  manifest is not a JSON object.
\<close>

fun read_plugin_info :: "str \<Rightarrow> node \<Rightarrow> str + plugin_info" where
  "read_plugin_info dir_name plugin_json_path =
     (case load_json plugin_json_path of
        JSONDecodeError e \<Rightarrow> Inl e
      | OtherError e \<Rightarrow> Inl e
      | Loaded plugin_data \<Rightarrow>
          (case plugin_data of
             JObj kv \<Rightarrow> Inr
               \<lparr>info_name = dict_get kv (py ''name'') (JStr dir_name),
                info_description = dict_get kv (py ''description'') (JStr []),
                info_version = dict_get kv (py ''version'') (JStr []),
                info_path = dir_name\<rparr>
           | _ \<Rightarrow> Inl (no_attribute_get plugin_data)))"

text \<open>
  The loop of \<open>get_plugin_list\<close> over the entries of the plugins directory;
  \<open>plugins[plugin_dir.name] = ...\<close> is \<open>AList.update\<close>. A directory whose manifest
  cannot be read gets a warning and no entry.
\<close>

fun plugin_list_loop ::
  "(str \<times> node) list \<Rightarrow> report \<times> (str \<times> plugin_info) list \<Rightarrow> report \<times> (str \<times> plugin_info) list"
where
  "plugin_list_loop [] acc = acc"
| "plugin_list_loop ((dir_name, plugin_dir) # es) (st, plugins) =
     (if \<not> is_dir plugin_dir then plugin_list_loop es (st, plugins)
      else
        (case resolve plugin_dir [py ''.claude-plugin'', py ''plugin.json''] of
           None \<Rightarrow> plugin_list_loop es (st, plugins)
         | Some plugin_json_path \<Rightarrow>
             (case read_plugin_info dir_name plugin_json_path of
                Inr info \<Rightarrow> plugin_list_loop es (st, AList.update dir_name info plugins)
              | Inl e \<Rightarrow>
                  plugin_list_loop es (add_warning (could_not_read dir_name e) st, plugins))))"

text \<open>
  \<open>get_plugin_list\<close>, given what is at \<open>repo_root / "plugins"\<close>, if anything. \<open>iterdir\<close>
  on a file raises, and nothing catches it.
\<close>

fun get_plugin_list :: "node option \<Rightarrow> report \<Rightarrow> exn + (report \<times> (str \<times> plugin_info) list)" where
  "get_plugin_list None st = Inr (st, [])"
| "get_plugin_list (Some (File r)) st = Inl NotADirectoryError"
| "get_plugin_list (Some (Dir es)) st = Inr (plugin_list_loop es (st, []))"

text \<open>
  A documentation file that exists: its text, or the exception of \<open>open\<close> / \<open>f.read()\<close>
  (a directory of that name, bytes that are not UTF-8), which nothing catches.
\<close>

datatype read_result =
    Content str
  | ReadError str

record repo =
  plugins_dir :: "node option"
  readme :: "read_result option"
  plugins_md :: "read_result option"

text \<open>
  The set difference and its warning, the same for both files:
  \<open>missing = set(plugins.keys()) - extract(content)\<close>, and if it is not empty one warning
  in which the sorted names are joined.
\<close>

definition check_missing ::
  "str \<Rightarrow> str \<Rightarrow> (str \<times> plugin_info) list \<Rightarrow> report \<Rightarrow> report \<times> bool" where
  "check_missing file_name content plugins st =
     (let mentioned = extract_plugin_names_from_markdown content;
          missing = fst ` set plugins - mentioned
      in if missing \<noteq> {} then
           (add_warning (file_name @ py '' may be missing these plugins: ''
              @ join (py '', '') (sorted_list_of_set missing)) st, False)
         else (st, True))"

text \<open>The block \<open># Check README.md\<close>.\<close>

fun check_readme ::
  "read_result option \<Rightarrow> (str \<times> plugin_info) list \<Rightarrow> report \<Rightarrow> exn + (report \<times> bool)" where
  "check_readme None plugins st = Inr (add_warning (py ''README.md not found'') st, True)"
| "check_readme (Some (ReadError e)) plugins st = Inl (Uncaught e)"
| "check_readme (Some (Content readme_content)) plugins st =
     Inr (check_missing (py ''README.md'') readme_content plugins st)"

text \<open>The block \<open># Check plugins.md (if it exists and is supposed to be a catalog)\<close>.\<close>

fun check_plugins_md ::
  "read_result option \<Rightarrow> (str \<times> plugin_info) list \<Rightarrow> report \<Rightarrow> exn + (report \<times> bool)" where
  "check_plugins_md None plugins st = Inr (st, True)"
| "check_plugins_md (Some (ReadError e)) plugins st = Inl (Uncaught e)"
| "check_plugins_md (Some (Content plugins_md_content)) plugins st =
     (if str_in (py ''# Plugins'') plugins_md_content
         \<and> \<not> str_in (py ''## Quickstart'') plugins_md_content
      then Inr (check_missing (py ''plugins.md'') plugins_md_content plugins st)
      else Inr (st, True))"

definition validate_marketplace_sync :: "repo \<Rightarrow> report \<Rightarrow> exn + (report \<times> bool)" where
  "validate_marketplace_sync r st =
     (case get_plugin_list (plugins_dir r) st of
        Inl e \<Rightarrow> Inl e
      | Inr (st1, plugins) \<Rightarrow>
          if plugins = [] then Inr (st1, True)
          else
            (case check_readme (readme r) plugins st1 of
               Inl e \<Rightarrow> Inl e
             | Inr (st2, readme_valid) \<Rightarrow>
                 (case check_plugins_md (plugins_md r) plugins st2 of
                    Inl e \<Rightarrow> Inl e
                  | Inr (st3, plugins_md_valid) \<Rightarrow>
                      Inr (st3, readme_valid \<and> plugins_md_valid))))"

text \<open>
  \<open>validate_on_pr\<close>. Its inputs are the environment (\<open>GITHUB_ACTIONS == 'true'\<close>) and what
  \<open>subprocess.run(['git', 'diff', '--name-only', 'origin/main...HEAD'], ...)\<close> does:
  it raises, or it completes with a return code and a standard output.
\<close>

datatype diff_outcome =
    RunRaised str
  | Completed int str

definition pr_error_msg :: str where
  "pr_error_msg = py ''Plugin files were modified but marketplace files (README.md, plugins.md) were not updated. ''
     @ py ''Please update the marketplace documentation to reflect the plugin changes.''"

definition validate_on_pr :: "bool \<Rightarrow> diff_outcome \<Rightarrow> report \<Rightarrow> report \<times> bool" where
  "validate_on_pr is_github_actions diff st =
     (if \<not> is_github_actions then (st, True)
      else
        (case diff of
           RunRaised e \<Rightarrow> (st, True)
         | Completed returncode stdout \<Rightarrow>
             if returncode \<noteq> 0 then (st, True)
             else
               (let changed_files = split_nl (strip stdout);
                    plugin_changes = filter (\<lambda>f. startswith f (py ''plugins/'')) changed_files
                in if plugin_changes = [] then (st, True)
                   else
                     (let marketplace_files = [py ''README.md'', py ''plugins.md''];
                          marketplace_updated = list_ex (\<lambda>f. f \<in> set changed_files) marketplace_files
                      in if plugin_changes \<noteq> [] \<and> \<not> marketplace_updated
                         then (add_error pr_error_msg st, False)
                         else (st, True)))))"


section \<open>The schema validator\<close>

definition PLUGIN_JSON_REQUIRED_FIELDS :: "str list" where
  "PLUGIN_JSON_REQUIRED_FIELDS = [py ''name'', py ''version'', py ''description'']"

definition OPTIONAL_DIRS :: "str list" where
  "OPTIONAL_DIRS = [py ''commands'', py ''agents'', py ''skills'', py ''hooks'', py ''scripts'']"

definition OPTIONAL_FILES :: "str list" where
  "OPTIONAL_FILES = [py ''.mcp.json'', py ''LICENSE'', py ''CHANGELOG.md'', py ''README.md'']"

text \<open>The prefix \<open>[{plugin_name}]\<close> of every message of a plugin.\<close>

definition tag :: "str \<Rightarrow> str" where
  "tag plugin_name = py ''['' @ plugin_name @ py ''] ''"

text \<open>\<open>isinstance(x, str) and bool(x)\<close>; the source tests its negation,
  \<open>not isinstance(x, str) or not x\<close>.\<close>

fun nonempty_str :: "json \<Rightarrow> bool" where
  "nonempty_str (JStr s) = (s \<noteq> [])"
| "nonempty_str x = False"

fun is_str :: "json \<Rightarrow> bool" where
  "is_str (JStr s) = True"
| "is_str x = False"

text \<open>The message \<open>[{plugin_name}] plugin.json '{field}' must be a non-empty string\<close>.\<close>

definition must_be_nonempty :: "str \<Rightarrow> str \<Rightarrow> str" where
  "must_be_nonempty plugin_name field =
     tag plugin_name @ py ''plugin.json '' @ quoted field @ py '' must be a non-empty string''"

text \<open>\<open>validate_author_field\<close>: three early returns, then two checks that are both made.\<close>

definition validate_author_field ::
  "json \<Rightarrow> str \<Rightarrow> 'a report_scheme \<Rightarrow> 'a report_scheme \<times> bool" where
  "validate_author_field author plugin_name st =
     (case author of
        JObj kv \<Rightarrow>
          (case map_of kv (py ''name'') of
             None \<Rightarrow>
               (add_error (tag plugin_name @ py ''plugin.json 'author' must have a 'name' field'') st,
                False)
           | Some author_name \<Rightarrow>
               if \<not> nonempty_str author_name then
                 (add_error (must_be_nonempty plugin_name (py ''author.name'')) st, False)
               else
                 (let s = (st, True);
                      s = (case map_of kv (py ''email'') of
                             None \<Rightarrow> s
                           | Some email \<Rightarrow>
                               fail_if (\<not> nonempty_str email)
                                 (must_be_nonempty plugin_name (py ''author.email'')) s);
                      s = (case map_of kv (py ''url'') of
                             None \<Rightarrow> s
                           | Some url \<Rightarrow>
                               fail_if (\<not> nonempty_str url)
                                 (must_be_nonempty plugin_name (py ''author.url'')) s)
                  in s))
      | _ \<Rightarrow>
          (add_error (tag plugin_name @ py ''plugin.json 'author' must be an object'') st, False))"

text \<open>
  \<open>field in data\<close> for whatever \<open>json.load\<close> returned: a key of a dict, an element of a
  list, a substring of a string, and a TypeError (its text on the left) for \<open>None\<close>,
  booleans and numbers.
\<close>

fun field_in :: "str \<Rightarrow> json \<Rightarrow> str + bool" where
  "field_in field (JObj kv) = Inr (map_of kv field \<noteq> None)"
| "field_in field (JArr xs) = Inr (JStr field \<in> set xs)"
| "field_in field (JStr s) = Inr (str_in field s)"
| "field_in field data =
     Inl (py ''argument of type '' @ quoted (type_name data) @ py '' is not iterable'')"

text \<open>The loop that collects \<open>missing_fields\<close>; the TypeError leaves it at once.\<close>

fun missing_fields :: "str list \<Rightarrow> json \<Rightarrow> str + str list" where
  "missing_fields [] data = Inr []"
| "missing_fields (field # rest) data =
     (case field_in field data of
        Inl e \<Rightarrow> Inl e
      | Inr present \<Rightarrow>
          (case missing_fields rest data of
             Inl e \<Rightarrow> Inl e
           | Inr ms \<Rightarrow> Inr (if present then ms else field # ms)))"

text \<open>
  The three checks \<open># Validate required field types\<close>, on a dict. \<open>data.get(field)\<close> is
  \<open>None\<close> for an absent key, and \<open>None\<close> is not a string.
\<close>

definition required_ok :: "(str \<times> json) list \<Rightarrow> str \<Rightarrow> bool" where
  "required_ok kv field = (case map_of kv field of None \<Rightarrow> False | Some v \<Rightarrow> nonempty_str v)"

definition check_required_types ::
  "(str \<times> json) list \<Rightarrow> str \<Rightarrow> 'a report_scheme \<times> bool \<Rightarrow> 'a report_scheme \<times> bool" where
  "check_required_types kv plugin_name s =
     (let s = fail_if (\<not> required_ok kv (py ''name''))
                (must_be_nonempty plugin_name (py ''name'')) s;
          s = fail_if (\<not> required_ok kv (py ''version''))
                (must_be_nonempty plugin_name (py ''version'')) s;
          s = fail_if (\<not> required_ok kv (py ''description''))
                (must_be_nonempty plugin_name (py ''description'')) s
      in s)"

text \<open>An optional field that must be a non-empty string if it is there
  (\<open>homepage\<close>, \<open>repository\<close>, \<open>license\<close>, \<open>agents\<close>, \<open>hooks\<close>, \<open>mcpServers\<close>).\<close>

definition check_optional_str ::
  "(str \<times> json) list \<Rightarrow> str \<Rightarrow> str \<Rightarrow> 'a report_scheme \<times> bool \<Rightarrow> 'a report_scheme \<times> bool" where
  "check_optional_str kv plugin_name field s =
     (case map_of kv field of
        None \<Rightarrow> s
      | Some v \<Rightarrow> fail_if (\<not> nonempty_str v) (must_be_nonempty plugin_name field) s)"

definition check_author ::
  "(str \<times> json) list \<Rightarrow> str \<Rightarrow> 'a report_scheme \<times> bool \<Rightarrow> 'a report_scheme \<times> bool" where
  "check_author kv plugin_name s =
     (case map_of kv (py ''author'') of
        None \<Rightarrow> s
      | Some author \<Rightarrow>
          (case validate_author_field author plugin_name (fst s) of
             (st', ok) \<Rightarrow> (st', if \<not> ok then False else snd s)))"

definition check_keywords ::
  "(str \<times> json) list \<Rightarrow> str \<Rightarrow> 'a report_scheme \<times> bool \<Rightarrow> 'a report_scheme \<times> bool" where
  "check_keywords kv plugin_name s =
     (case map_of kv (py ''keywords'') of
        None \<Rightarrow> s
      | Some (JArr ks) \<Rightarrow>
          fail_if (\<not> list_all is_str ks)
            (tag plugin_name @ py ''plugin.json 'keywords' must contain only strings'') s
      | Some _ \<Rightarrow>
          fail_if True (tag plugin_name @ py ''plugin.json 'keywords' must be an array'') s)"

definition check_commands ::
  "(str \<times> json) list \<Rightarrow> str \<Rightarrow> 'a report_scheme \<times> bool \<Rightarrow> 'a report_scheme \<times> bool" where
  "check_commands kv plugin_name s =
     (case map_of kv (py ''commands'') of
        None \<Rightarrow> s
      | Some (JArr cs) \<Rightarrow>
          fail_if (\<not> list_all is_str cs)
            (tag plugin_name @ py ''plugin.json 'commands' array must contain only strings'') s
      | Some (JStr c) \<Rightarrow> s
      | Some _ \<Rightarrow>
          fail_if True (tag plugin_name @ py ''plugin.json 'commands' must be a string or array'') s)"

text \<open>The checks \<open># Validate optional fields\<close>, in the order of the source.\<close>

definition check_optional_fields ::
  "(str \<times> json) list \<Rightarrow> str \<Rightarrow> 'a report_scheme \<times> bool \<Rightarrow> 'a report_scheme \<times> bool" where
  "check_optional_fields kv plugin_name s =
     (let s = check_author kv plugin_name s;
          s = check_optional_str kv plugin_name (py ''homepage'') s;
          s = check_optional_str kv plugin_name (py ''repository'') s;
          s = check_optional_str kv plugin_name (py ''license'') s;
          s = check_keywords kv plugin_name s;
          s = check_commands kv plugin_name s;
          s = check_optional_str kv plugin_name (py ''agents'') s;
          s = check_optional_str kv plugin_name (py ''hooks'') s;
          s = check_optional_str kv plugin_name (py ''mcpServers'') s
      in s)"

definition error_reading :: "str \<Rightarrow> str \<Rightarrow> str" where
  "error_reading plugin_name e = tag plugin_name @ py ''Error reading plugin.json: '' @ e"

text \<open>
  The body of the \<open>try\<close> of \<open>validate_plugin_json\<close> once \<open>json.load\<close> has returned
  \<open>data\<close>. Missing fields give one error that names them all, and the function returns
  at once. If \<open>data\<close> is a list or a string in which all three names occur,
  \<open>data.get\<close> raises AttributeError before anything is appended; \<open>except Exception\<close>
  turns it, and the TypeError of \<open>in\<close>, into one error.
\<close>

definition validate_manifest_data ::
  "json \<Rightarrow> str \<Rightarrow> 'a report_scheme \<Rightarrow> 'a report_scheme \<times> bool" where
  "validate_manifest_data data plugin_name st =
     (case missing_fields PLUGIN_JSON_REQUIRED_FIELDS data of
        Inl e \<Rightarrow> (add_error (error_reading plugin_name e) st, False)
      | Inr missing \<Rightarrow>
          if missing \<noteq> [] then
            (add_error (tag plugin_name @ py ''plugin.json missing required fields: ''
               @ join (py '', '') missing) st, False)
          else
            (case data of
               JObj kv \<Rightarrow>
                 check_optional_fields kv plugin_name
                   (check_required_types kv plugin_name (st, True))
             | _ \<Rightarrow> (add_error (error_reading plugin_name (no_attribute_get data)) st, False)))"

definition validate_plugin_json ::
  "node \<Rightarrow> str \<Rightarrow> 'a report_scheme \<Rightarrow> 'a report_scheme \<times> bool" where
  "validate_plugin_json file_path plugin_name st =
     (case load_json file_path of
        Loaded data \<Rightarrow> validate_manifest_data data plugin_name st
      | JSONDecodeError e \<Rightarrow>
          (add_error (tag plugin_name @ py ''Invalid JSON in plugin.json: '' @ e) st, False)
      | OtherError e \<Rightarrow> (add_error (error_reading plugin_name e) st, False))"

definition validate_mcp_json ::
  "node \<Rightarrow> str \<Rightarrow> 'a report_scheme \<Rightarrow> 'a report_scheme \<times> bool" where
  "validate_mcp_json file_path plugin_name st =
     (case load_json file_path of
        Loaded data \<Rightarrow> (st, True)
      | JSONDecodeError e \<Rightarrow>
          (add_error (tag plugin_name @ py ''Invalid JSON in .mcp.json: '' @ e) st, False)
      | OtherError e \<Rightarrow>
          (add_warning (tag plugin_name @ py ''Error reading .mcp.json: '' @ e) st, True))"

text \<open>\<open>validate_markdown_files\<close>; \<open>dir_name\<close> is \<open>dir_path.name\<close>. The parameter
  \<open>file_type\<close> of the source is not used by it.\<close>

definition validate_markdown_files ::
  "node \<Rightarrow> str \<Rightarrow> str \<Rightarrow> 'a report_scheme \<Rightarrow> 'a report_scheme \<times> bool" where
  "validate_markdown_files dir_path dir_name plugin_name st =
     (let md_files = glob_suffix (py ''.md'') dir_path
      in if md_files = [] then
           (add_warning (tag plugin_name @ dir_name
              @ py ''/ directory exists but contains no .md files'') st, True)
         else (st, True))"

text \<open>The loop of \<open>validate_skills\<close> over the skill directories.\<close>

fun skills_loop :: "(str \<times> node) list \<Rightarrow> str \<Rightarrow> 'a report_scheme \<Rightarrow> 'a report_scheme" where
  "skills_loop [] plugin_name st = st"
| "skills_loop ((skill_name, skill_dir) # ds) plugin_name st =
     skills_loop ds plugin_name
       (if child skill_dir (py ''SKILL.md'') = None then
          add_warning (tag plugin_name @ py ''Skill directory '' @ quoted skill_name
            @ py '' missing SKILL.md'') st
        else st)"

text \<open>\<open>validate_skills\<close>; \<open>iterdir\<close> raises when \<open>skills\<close> is a file.\<close>

fun validate_skills ::
  "node \<Rightarrow> str \<Rightarrow> 'a report_scheme \<Rightarrow> exn + ('a report_scheme \<times> bool)" where
  "validate_skills (File r) plugin_name st = Inl NotADirectoryError"
| "validate_skills (Dir es) plugin_name st =
     (let skill_dirs = filter (\<lambda>e. is_dir (snd e)) es
      in if skill_dirs = [] then
           Inr (add_warning (tag plugin_name
                  @ py ''skills/ directory exists but contains no skill directories'') st, True)
         else Inr (skills_loop skill_dirs plugin_name st, True))"

text \<open>
  The loop of \<open>validate_json_files\<close>. Only JSONDecodeError is caught; a file that cannot
  be read ends the run.
\<close>

fun json_files_loop ::
  "(str \<times> node) list \<Rightarrow> str \<Rightarrow> 'a report_scheme \<times> bool \<Rightarrow> exn + ('a report_scheme \<times> bool)" where
  "json_files_loop [] plugin_name s = Inr s"
| "json_files_loop ((file_name, json_file) # fs) plugin_name (st, all_valid) =
     (case load_json json_file of
        Loaded data \<Rightarrow> json_files_loop fs plugin_name (st, all_valid)
      | JSONDecodeError e \<Rightarrow>
          json_files_loop fs plugin_name
            (add_error (tag plugin_name @ py ''Invalid JSON in '' @ file_name @ py '': '' @ e) st,
             False)
      | OtherError e \<Rightarrow> Inl (Uncaught e))"

definition validate_json_files ::
  "node \<Rightarrow> str \<Rightarrow> str \<Rightarrow> 'a report_scheme \<Rightarrow> exn + ('a report_scheme \<times> bool)" where
  "validate_json_files dir_path dir_name plugin_name st =
     (let json_files = glob_suffix (py ''.json'') dir_path
      in if json_files = [] then
           Inr (add_warning (tag plugin_name @ dir_name
                  @ py ''/ directory exists but contains no .json files'') st, True)
         else json_files_loop json_files plugin_name (st, True))"

text \<open>
  One round of the loop \<open># Check required files\<close> of \<open>validate_plugin\<close>;
  \<open>REQUIRED_FILES\<close> has the manifest as its only key.
\<close>

definition manifest_path :: "str list" where
  "manifest_path = [py ''.claude-plugin'', py ''plugin.json'']"

definition missing_required_file :: "str \<Rightarrow> str" where
  "missing_required_file plugin_name =
     tag plugin_name @ py ''Missing required file: .claude-plugin/plugin.json (Plugin manifest file)''"

definition check_required_files ::
  "node \<Rightarrow> str \<Rightarrow> 'a report_scheme \<times> bool \<Rightarrow> 'a report_scheme \<times> bool" where
  "check_required_files plugin_dir plugin_name s =
     (case resolve plugin_dir manifest_path of
        None \<Rightarrow> (add_error (missing_required_file plugin_name) (fst s), False)
      | Some file_path \<Rightarrow>
          (case validate_plugin_json file_path plugin_name (fst s) of
             (st', ok) \<Rightarrow> (st', if \<not> ok then False else snd s)))"

text \<open>One round of the loop \<open># Check optional directories\<close>, with its chain of
  \<open>if\<close>/\<open>elif\<close> on the name of the directory.\<close>

definition check_optional_dir ::
  "node \<Rightarrow> str \<Rightarrow> str \<Rightarrow> 'a report_scheme \<times> bool \<Rightarrow> exn + ('a report_scheme \<times> bool)" where
  "check_optional_dir plugin_dir plugin_name opt_dir s =
     (case child plugin_dir opt_dir of
        None \<Rightarrow> Inr s
      | Some dir_path \<Rightarrow>
          if opt_dir = py ''commands'' then
            (case validate_markdown_files dir_path opt_dir plugin_name (fst s) of
               (st', ok) \<Rightarrow> Inr (st', if \<not> ok then False else snd s))
          else if opt_dir = py ''agents'' then
            (case validate_markdown_files dir_path opt_dir plugin_name (fst s) of
               (st', ok) \<Rightarrow> Inr (st', if \<not> ok then False else snd s))
          else if opt_dir = py ''skills'' then
            (case validate_skills dir_path plugin_name (fst s) of
               Inl e \<Rightarrow> Inl e
             | Inr (st', ok) \<Rightarrow> Inr (st', if \<not> ok then False else snd s))
          else if opt_dir = py ''hooks'' then
            (case validate_json_files dir_path opt_dir plugin_name (fst s) of
               Inl e \<Rightarrow> Inl e
             | Inr (st', ok) \<Rightarrow> Inr (st', if \<not> ok then False else snd s))
          else Inr s)"

fun check_optional_dirs ::
  "node \<Rightarrow> str \<Rightarrow> str list \<Rightarrow> 'a report_scheme \<times> bool \<Rightarrow> exn + ('a report_scheme \<times> bool)" where
  "check_optional_dirs plugin_dir plugin_name [] s = Inr s"
| "check_optional_dirs plugin_dir plugin_name (opt_dir # ds) s =
     (case check_optional_dir plugin_dir plugin_name opt_dir s of
        Inl e \<Rightarrow> Inl e
      | Inr s' \<Rightarrow> check_optional_dirs plugin_dir plugin_name ds s')"

text \<open>One round of the loop \<open># Check optional files\<close>.\<close>

definition check_optional_file ::
  "node \<Rightarrow> str \<Rightarrow> str \<Rightarrow> 'a report_scheme \<times> bool \<Rightarrow> 'a report_scheme \<times> bool" where
  "check_optional_file plugin_dir plugin_name opt_file s =
     (case child plugin_dir opt_file of
        None \<Rightarrow> s
      | Some file_path \<Rightarrow>
          if opt_file = py ''.mcp.json'' then
            (case validate_mcp_json file_path plugin_name (fst s) of
               (st', ok) \<Rightarrow> (st', if \<not> ok then False else snd s))
          else s)"

text \<open>
  \<open>validate_plugin\<close>, for the directory \<open>plugin_dir\<close> named \<open>plugin_name\<close>. The three
  loops run one after the other whatever the first one found.
\<close>

definition validate_plugin :: "str \<times> node \<Rightarrow> vstate \<Rightarrow> exn + (vstate \<times> bool)" where
  "validate_plugin p st =
     (let plugin_name = fst p;
          plugin_dir = snd p;
          s = check_required_files plugin_dir plugin_name (st, True)
      in case check_optional_dirs plugin_dir plugin_name OPTIONAL_DIRS s of
           Inl e \<Rightarrow> Inl e
         | Inr s \<Rightarrow>
             (let s = fold (check_optional_file plugin_dir plugin_name) OPTIONAL_FILES s;
                  st' = fst s;
                  plugin_valid = snd s
              in if plugin_valid then
                   Inr (st'\<lparr>validated_plugins := insert plugin_name (validated_plugins st')\<rparr>, True)
                 else Inr (st', False)))"




section \<open>What a check appends\<close>

text \<open>
  Notions for the proofs about the schema validator. Every check of the validator appends
  some errors and some warnings to the report, which ones depending on the plugin and not
  on the report so far, and reports success exactly if it appended no error.
  \<open>extend\<close> is the report with both lists appended; \<open>checks\<close> and \<open>logs\<close> say this of a
  check that returns its own verdict and of one that updates a running verdict, with a
  property that every appended error has; \<open>checks_exn\<close> and \<open>logs_exn\<close> say it of checks
  that may raise, and then raise whatever the report is.
\<close>

definition extend :: "str list \<Rightarrow> str list \<Rightarrow> 'a report_scheme \<Rightarrow> 'a report_scheme" where
  "extend es ws st = st\<lparr>errors := errors st @ es, warnings := warnings st @ ws\<rparr>"

definition checks :: "(str \<Rightarrow> bool) \<Rightarrow> ('a report_scheme \<Rightarrow> 'a report_scheme \<times> bool) \<Rightarrow> bool" where
  "checks P f \<longleftrightarrow> (\<exists>es ws. list_all P es \<and> (\<forall>st. f st = (extend es ws st, es = [])))"

definition logs :: "(str \<Rightarrow> bool) \<Rightarrow> ('a report_scheme \<times> bool \<Rightarrow> 'a report_scheme \<times> bool) \<Rightarrow> bool" where
  "logs P g \<longleftrightarrow> (\<exists>es ws. list_all P es \<and> (\<forall>st ok. g (st, ok) = (extend es ws st, ok \<and> es = [])))"

definition checks_exn :: "('a report_scheme \<Rightarrow> exn + 'a report_scheme \<times> bool) \<Rightarrow> bool" where
  "checks_exn f \<longleftrightarrow> (\<exists>e. \<forall>st. f st = Inl e)
     \<or> (\<exists>es ws. \<forall>st. f st = Inr (extend es ws st, es = []))"

definition logs_exn :: "('a report_scheme \<times> bool \<Rightarrow> exn + 'a report_scheme \<times> bool) \<Rightarrow> bool" where
  "logs_exn g \<longleftrightarrow> (\<exists>e. \<forall>s. g s = Inl e)
     \<or> (\<exists>es ws. \<forall>st ok. g (st, ok) = Inr (extend es ws st, ok \<and> es = []))"

abbreviation not_required_msg :: "str \<Rightarrow> str \<Rightarrow> bool" where
  "not_required_msg n m \<equiv> m \<notin> must_be_nonempty n ` set PLUGIN_JSON_REQUIRED_FIELDS"

abbreviation any_msg :: "str \<Rightarrow> bool" where
  "any_msg \<equiv> \<lambda>m. True"


section \<open>Properties of the string functions and the patterns\<close>

lemma startswith_iff: "startswith s p \<longleftrightarrow> (\<exists>v. s = p @ v)"
  unfolding startswith_def by (metis append_eq_conv_conj append_take_drop_id)

text \<open>\<open>str_in\<close> decides what \<open>in\<close> means for strings: an occurrence somewhere in the text.\<close>

lemma str_in_iff: "str_in p s \<longleftrightarrow> (\<exists>u v. s = u @ p @ v)"
proof (induction s)
  case Nil
  show ?case by auto
next
  case (Cons c cs)
  show ?case
  proof
    assume "str_in p (c # cs)"
    then consider "startswith (c # cs) p" | "str_in p cs" by auto
    then show "\<exists>u v. c # cs = u @ p @ v"
    proof cases
      case 1
      then obtain v where "c # cs = p @ v" by (auto simp: startswith_iff)
      then have "c # cs = [] @ p @ v" by simp
      then show ?thesis by blast
    next
      case 2
      with Cons.IH obtain u v where "cs = u @ p @ v" by blast
      then have "c # cs = (c # u) @ p @ v" by simp
      then show ?thesis by blast
    qed
  next
    assume "\<exists>u v. c # cs = u @ p @ v"
    then obtain u v where uv: "c # cs = u @ p @ v" by blast
    show "str_in p (c # cs)"
    proof (cases u)
      case Nil
      with uv have "startswith (c # cs) p" by (auto simp: startswith_iff)
      then show ?thesis by simp
    next
      case (Cons a u')
      with uv have "cs = u' @ p @ v" by simp
      with Cons.IH have "str_in p cs" by blast
      then show ?thesis by simp
    qed
  qed
qed

text \<open>One unfolding step of the scan, for evaluation on a concrete text.\<close>

lemma scan_Cons:
  "scan m k (c # cs) =
     (if k = 0 then (case m (c # cs) of
                       None \<Rightarrow> scan m 0 cs
                     | Some (tok, n) \<Rightarrow> tok # scan m (n - 1) cs)
      else scan m (k - 1) cs)"
  by (cases k) auto

lemmas regex_eval = findall_def scan_Cons match_install_def match_at_def match_bold_def
  startswith_def lit_ic_def name_char_ic_def name_char_def bold_char_def is_space_def Let_def

text \<open>Whatever holds for every group a matcher can capture holds for every token found.\<close>

lemma scan_tokens:
  assumes "\<And>s tok n. m s = Some (tok, n) \<Longrightarrow> P tok"
  shows "list_all P (scan m k s)"
  using assms
  by (induction m k s rule: scan.induct) (auto split: option.splits)

lemma match_install_chars:
  "match_install s = Some (tok, n) \<Longrightarrow> tok \<noteq> [] \<and> list_all name_char_ic tok"
  by (auto simp: match_install_def Let_def list_all_iff split: option.splits if_splits
           dest: set_takeWhileD)

lemma match_at_chars:
  "match_at s = Some (tok, n) \<Longrightarrow> tok \<noteq> [] \<and> list_all name_char_ic tok"
  by (auto simp: match_at_def Let_def list_all_iff split: if_splits dest: set_takeWhileD)

lemma match_bold_chars:
  "match_bold s = Some (name, n) \<Longrightarrow> name \<noteq> [] \<and> list_all bold_char name"
  by (auto simp: match_bold_def Let_def list_all_iff split: if_splits dest: set_takeWhileD)

lemma kebab_chars: "list_all bold_char name \<Longrightarrow> list_all name_char (kebab name)"
  by (induction name) (auto simp: kebab_def bold_char_def name_char_def ascii_lower_def)

lemma fold_add: "fold (\<lambda>name acc. insert (f name) acc) xs A = A \<union> f ` set xs"
  by (induction xs arbitrary: A) auto

lemma extract_eq:
  "extract_plugin_names_from_markdown content =
     (set (findall match_install content) \<union> set (findall match_at content)
        \<union> kebab ` set (findall match_bold content)) - false_positives"
  by (simp add: extract_plugin_names_from_markdown_def Let_def fold_add)


text \<open>
  What the scan finds, and where. Every token found is the group of a match at some
  position of the text; a match is found if no match that begins before it reaches over
  its first character.
\<close>

lemma scan_sound:
  "t \<in> set (scan m k s) \<Longrightarrow> \<exists>j n. m (drop j s) = Some (t, n)"
proof (induction m k s rule: scan.induct)
  case (1 m k)
  then show ?case by simp
next
  case (2 m k c cs)
  then obtain j n where "m (drop j cs) = Some (t, n)" by auto
  then have "m (drop (Suc j) (c # cs)) = Some (t, n)" by simp
  then show ?case by blast
next
  case (3 m c cs)
  show ?case
  proof (cases "m (c # cs)")
    case None
    with 3 obtain j n where "m (drop j cs) = Some (t, n)" by auto
    then have "m (drop (Suc j) (c # cs)) = Some (t, n)" by simp
    then show ?thesis by blast
  next
    case (Some p)
    obtain tok n0 where p: "p = (tok, n0)" by (cases p)
    from 3(3) Some p consider "t = tok" | "t \<in> set (scan m (n0 - 1) cs)" by auto
    then show ?thesis
    proof cases
      case 1
      with Some p have "m (drop 0 (c # cs)) = Some (t, n0)" by simp
      then show ?thesis by blast
    next
      case 2
      from 3(2) [OF Some p [symmetric] 2] obtain j n where "m (drop j cs) = Some (t, n)" by auto
      then have "m (drop (Suc j) (c # cs)) = Some (t, n)" by simp
      then show ?thesis by blast
    qed
  qed
qed

lemma scan_complete:
  assumes "m [] = None"
    and "m (drop j s) = Some (t, n)"
    and "k \<le> j"
    and "\<And>i t' n'. i < j \<Longrightarrow> m (drop i s) = Some (t', n') \<Longrightarrow> i + n' \<le> j"
  shows "t \<in> set (scan m k s)"
  using assms
proof (induction m k s arbitrary: j rule: scan.induct)
  case (1 m k)
  then show ?case by simp
next
  case (2 m k c cs)
  from 2(4) obtain j' where j: "j = Suc j'" by (cases j) auto
  have "t \<in> set (scan m k cs)"
  proof (rule 2(1) [OF 2(2), of j'])
    show "m (drop j' cs) = Some (t, n)" using 2(3) j by simp
    show "k \<le> j'" using 2(4) j by simp
    show "i + n' \<le> j'" if "i < j'" "m (drop i cs) = Some (t', n')" for i t' n'
      using 2(5) [of "Suc i" t' n'] that j by simp
  qed
  then show ?case by simp
next
  case (3 m c cs)
  show ?case
  proof (cases j)
    case 0
    with 3(4) show ?thesis by (auto split: option.splits)
  next
    case (Suc j')
    show ?thesis
    proof (cases "m (c # cs)")
      case None
      have "t \<in> set (scan m 0 cs)"
      proof (rule 3(1) [OF None 3(3), of j'])
        show "m (drop j' cs) = Some (t, n)" using 3(4) Suc by simp
        show "0 \<le> j'" by simp
        show "i + n' \<le> j'" if "i < j'" "m (drop i cs) = Some (t', n')" for i t' n'
          using 3(6) [of "Suc i" t' n'] that Suc by simp
      qed
      with None show ?thesis by simp
    next
      case (Some p)
      obtain tok n0 where p: "p = (tok, n0)" by (cases p)
      have "t \<in> set (scan m (n0 - 1) cs)"
      proof (rule 3(2) [OF Some p [symmetric] 3(3), of j'])
        show "m (drop j' cs) = Some (t, n)" using 3(4) Suc by simp
        show "n0 - 1 \<le> j'" using 3(6) [of 0 tok n0] Some p Suc by simp
        show "i + n' \<le> j'" if "i < j'" "m (drop i cs) = Some (t', n')" for i t' n'
          using 3(6) [of "Suc i" t' n'] that Suc by simp
      qed
      with Some p show ?thesis by simp
    qed
  qed
qed

lemma drop_eq_iff: "(\<exists>j. drop j s = x) \<longleftrightarrow> (\<exists>u. s = u @ x)" if "x \<noteq> []"
proof
  assume "\<exists>j. drop j s = x"
  then obtain j where "drop j s = x" ..
  then have "s = take j s @ x" by (metis append_take_drop_id)
  then show "\<exists>u. s = u @ x" ..
next
  assume "\<exists>u. s = u @ x"
  then obtain u where "s = u @ x" ..
  then have "drop (length u) s = x" by simp
  then show "\<exists>j. drop j s = x" ..
qed

lemma takeWhile_eq_iff:
  "takeWhile P xs = t \<longleftrightarrow> (\<exists>v. xs = t @ v \<and> list_all P t \<and> (v = [] \<or> \<not> P (hd v)))"
proof
  assume t: "takeWhile P xs = t"
  have "xs = t @ dropWhile P xs" using t by (metis takeWhile_dropWhile_id)
  moreover have "list_all P t" using t by (auto simp: list_all_iff dest: set_takeWhileD)
  moreover have "dropWhile P xs = [] \<or> \<not> P (hd (dropWhile P xs))" by (metis hd_dropWhile)
  ultimately show "\<exists>v. xs = t @ v \<and> list_all P t \<and> (v = [] \<or> \<not> P (hd v))" by blast
next
  assume "\<exists>v. xs = t @ v \<and> list_all P t \<and> (v = [] \<or> \<not> P (hd v))"
  then obtain v where v: "xs = t @ v" "list_all P t" "v = [] \<or> \<not> P (hd v)" by blast
  from v(3) have "takeWhile P v = []" by (cases v) auto
  with v(1,2) show "takeWhile P xs = t" by (simp add: list_all_iff)
qed

lemma match_lit_ic_iff:
  "match_lit_ic ps s = Some rest \<longleftrightarrow> (\<exists>l. s = l @ rest \<and> list_all2 lit_ic ps l)"
  by (induction ps s rule: match_lit_ic.induct) (auto simp: list_all2_Cons1)

text \<open>The install pattern, read as a decomposition of the text. No match of it begins inside
  another one, since \<open>/\<close> occurs in a match at its first character only.\<close>

lemma match_install_iff:
  "match_install s = Some (t, n) \<longleftrightarrow>
     (\<exists>l v. s = l @ t @ v \<and> list_all2 lit_ic (py ''/plugin install '') l
        \<and> t \<noteq> [] \<and> list_all name_char_ic t \<and> (v = [] \<or> \<not> name_char_ic (hd v))
        \<and> n = 16 + length t)"
proof
  assume "match_install s = Some (t, n)"
  then obtain rest where r: "match_lit_ic (py ''/plugin install '') s = Some rest"
    and t: "takeWhile name_char_ic rest = t" "t \<noteq> []" and n: "n = 16 + length t"
    by (auto simp: match_install_def Let_def split: option.splits if_splits)
  from r obtain l where l: "s = l @ rest" "list_all2 lit_ic (py ''/plugin install '') l"
    unfolding match_lit_ic_iff by blast
  from t(1) obtain v where v: "rest = t @ v" "list_all name_char_ic t"
    "v = [] \<or> \<not> name_char_ic (hd v)"
    unfolding takeWhile_eq_iff by blast
  from l v t(2) n show "\<exists>l v. s = l @ t @ v \<and> list_all2 lit_ic (py ''/plugin install '') l
        \<and> t \<noteq> [] \<and> list_all name_char_ic t \<and> (v = [] \<or> \<not> name_char_ic (hd v))
        \<and> n = 16 + length t" by blast
next
  assume "\<exists>l v. s = l @ t @ v \<and> list_all2 lit_ic (py ''/plugin install '') l
        \<and> t \<noteq> [] \<and> list_all name_char_ic t \<and> (v = [] \<or> \<not> name_char_ic (hd v))
        \<and> n = 16 + length t"
  then obtain l v where s: "s = l @ t @ v" and l: "list_all2 lit_ic (py ''/plugin install '') l"
    and t: "t \<noteq> []" "list_all name_char_ic t" "v = [] \<or> \<not> name_char_ic (hd v)"
    and n: "n = 16 + length t" by blast
  from s l have r: "match_lit_ic (py ''/plugin install '') s = Some (t @ v)"
    unfolding match_lit_ic_iff by blast
  from t(2,3) have "takeWhile name_char_ic (t @ v) = t"
    unfolding takeWhile_eq_iff by blast
  with r t(1) n show "match_install s = Some (t, n)"
    by (simp add: match_install_def Let_def)
qed

lemma lit_ic_slash: "lit_ic p 47 \<Longrightarrow> p = 47"
  by (auto simp: lit_ic_def)

lemma list_all2_lit_ic_slash:
  "list_all2 lit_ic ps l \<Longrightarrow> 47 \<notin> set ps \<Longrightarrow> 47 \<notin> set l"
  by (induction rule: list_all2_induct) (auto dest: lit_ic_slash)

lemma match_install_head: "match_install s = Some (t, n) \<Longrightarrow> \<exists>cs. s = 47 # cs"
  by (cases s) (auto simp: match_install_def lit_ic_def split: if_splits)

lemma match_install_no_overlap:
  assumes m: "match_install s = Some (t, n)" and i: "0 < i" "i < n"
  shows "match_install (drop i s) = None"
proof -
  from m obtain l v where s: "s = l @ t @ v"
    and l: "list_all2 lit_ic (py ''/plugin install '') l"
    and t: "list_all name_char_ic t" and n: "n = 16 + length t"
    unfolding match_install_iff by blast
  from l obtain c l' where l': "l = c # l'" "list_all2 lit_ic (py ''plugin install '') l'"
    by (auto simp: list_all2_Cons1)
  from l'(2) have "47 \<notin> set l'" by (rule list_all2_lit_ic_slash) simp
  moreover from t have "47 \<notin> set t" by (auto simp: list_all_iff name_char_ic_def name_char_def)
  ultimately have no: "47 \<notin> set (l' @ t)" by simp
  from l have len: "length l = 16" by (auto dest: list_all2_lengthD)
  with l' have len': "length (l' @ t) = n - 1" using n by simp
  from i obtain i' where i': "i = Suc i'" by (cases i) auto
  with s l' have d: "drop i s = drop i' (l' @ t) @ v" using i len' by simp
  from i i' len' have "i' < length (l' @ t)" by simp
  then obtain x xs where x: "drop i' (l' @ t) = x # xs"
    by (cases "drop i' (l' @ t)") auto
  then have "x \<in> set (l' @ t)" by (metis in_set_dropD list.set_intros(1))
  with no have "x \<noteq> 47" by auto
  show ?thesis
  proof (cases "match_install (drop i s)")
    case None
    then show ?thesis .
  next
    case (Some p)
    obtain t' n' where "p = (t', n')" by (cases p)
    with Some have h: "\<exists>cs. drop i s = 47 # cs" by (auto dest: match_install_head)
    from d have "drop i s = x # (xs @ v)" unfolding x by simp
    with h \<open>x \<noteq> 47\<close> show ?thesis by auto
  qed
qed

lemma match_install_Nil: "match_install [] = None"
  by (simp add: match_install_def)

lemma findall_install_eq:
  "set (findall match_install content) =
     {t. \<exists>u l v. content = u @ l @ t @ v \<and> list_all2 lit_ic (py ''/plugin install '') l
        \<and> t \<noteq> [] \<and> list_all name_char_ic t \<and> (v = [] \<or> \<not> name_char_ic (hd v))}"
proof (intro set_eqI iffI)
  fix t
  assume "t \<in> set (findall match_install content)"
  then obtain j n where "match_install (drop j content) = Some (t, n)"
    unfolding findall_def by (blast dest: scan_sound)
  then obtain l v where d: "drop j content = l @ t @ v"
    and r: "list_all2 lit_ic (py ''/plugin install '') l" "t \<noteq> []" "list_all name_char_ic t"
      "v = [] \<or> \<not> name_char_ic (hd v)"
    unfolding match_install_iff by blast
  from d have "content = take j content @ l @ t @ v" by (metis append_take_drop_id)
  with r show "t \<in> {t. \<exists>u l v. content = u @ l @ t @ v \<and> list_all2 lit_ic (py ''/plugin install '') l
        \<and> t \<noteq> [] \<and> list_all name_char_ic t \<and> (v = [] \<or> \<not> name_char_ic (hd v))}" by blast
next
  fix t
  assume "t \<in> {t. \<exists>u l v. content = u @ l @ t @ v \<and> list_all2 lit_ic (py ''/plugin install '') l
        \<and> t \<noteq> [] \<and> list_all name_char_ic t \<and> (v = [] \<or> \<not> name_char_ic (hd v))}"
  then obtain u l v where c: "content = u @ l @ t @ v"
    and r: "list_all2 lit_ic (py ''/plugin install '') l" "t \<noteq> []" "list_all name_char_ic t"
      "v = [] \<or> \<not> name_char_ic (hd v)" by blast
  from c have "drop (length u) content = l @ t @ v" by simp
  with r have m: "match_install (drop (length u) content) = Some (t, 16 + length t)"
    unfolding match_install_iff by blast
  have "t \<in> set (scan match_install 0 content)"
  proof (rule scan_complete [OF match_install_Nil m])
    show "0 \<le> length u" by simp
    show "i + n' \<le> length u"
      if "i < length u" "match_install (drop i content) = Some (t', n')" for i t' n'
    proof (rule ccontr)
      assume "\<not> i + n' \<le> length u"
      with that(1) have "0 < length u - i" "length u - i < n'" by auto
      with that(2) have "match_install (drop (length u - i) (drop i content)) = None"
        by (intro match_install_no_overlap)
      with that(1) m show False by simp
    qed
  qed
  then show "t \<in> set (findall match_install content)" by (simp add: findall_def)
qed

text \<open>The \<open>@\<close> pattern. A match begins at every character of a run that \<open>@\<close> follows; the
  scan finds the one at the beginning of the run.\<close>

lemma not_name_char_ic_at: "\<not> name_char_ic 64"
  by (simp add: name_char_ic_def name_char_def)

lemma match_at_iff:
  "match_at s = Some (t, n) \<longleftrightarrow>
     (\<exists>v. s = t @ 64 # v \<and> t \<noteq> [] \<and> list_all name_char_ic t \<and> n = length t + 1)"
proof
  assume "match_at s = Some (t, n)"
  then have t: "takeWhile name_char_ic s = t" "t \<noteq> []"
    and a: "startswith (drop (length t) s) (py ''@'')" and n: "n = length t + 1"
    by (auto simp: match_at_def Let_def split: if_splits)
  from t(1) obtain w where w: "s = t @ w" "list_all name_char_ic t"
    unfolding takeWhile_eq_iff by blast
  from a w(1) obtain v where "w = 64 # v" by (auto simp: startswith_iff)
  with w t(2) n show "\<exists>v. s = t @ 64 # v \<and> t \<noteq> [] \<and> list_all name_char_ic t \<and> n = length t + 1"
    by blast
next
  assume "\<exists>v. s = t @ 64 # v \<and> t \<noteq> [] \<and> list_all name_char_ic t \<and> n = length t + 1"
  then obtain v where s: "s = t @ 64 # v" and t: "t \<noteq> []" "list_all name_char_ic t"
    and n: "n = length t + 1" by blast
  have "takeWhile name_char_ic s = t"
    unfolding takeWhile_eq_iff using s t(2) not_name_char_ic_at by auto
  moreover have "startswith (drop (length t) s) (py ''@'')"
    using s by (simp add: startswith_def)
  ultimately show "match_at s = Some (t, n)" using t(1) n by (simp add: match_at_def Let_def)
qed

lemma match_at_Nil: "match_at [] = None"
  by (simp add: match_at_def)

lemma match_at_tail:
  assumes "match_at (c # cs) = None" "name_char_ic c"
  shows "match_at cs = None"
proof (cases "match_at cs")
  case None
  then show ?thesis .
next
  case (Some p)
  obtain t n where "p = (t, n)" by (cases p)
  with Some have "match_at cs = Some (t, n)" by simp
  then obtain v where "cs = t @ 64 # v" "list_all name_char_ic t"
    unfolding match_at_iff by blast
  with assms(2) have "c # cs = (c # t) @ 64 # v \<and> c # t \<noteq> [] \<and> list_all name_char_ic (c # t)
    \<and> Suc (length t) + 1 = length (c # t) + 1" by simp
  then have "match_at (c # cs) = Some (c # t, Suc (length t) + 1)"
    unfolding match_at_iff by blast
  with assms(1) show ?thesis by simp
qed

lemma scan_at_sound:
  assumes "t \<in> set (scan match_at k s)"
    and "k = 0 \<longrightarrow> pre = [] \<or> \<not> name_char_ic (last pre) \<or> match_at s = None"
    and "0 < k \<longrightarrow> k \<le> length s \<and> s ! (k - 1) = 64"
  shows "\<exists>u v. s = u @ t @ 64 # v \<and> t \<noteq> [] \<and> list_all name_char_ic t
    \<and> (pre @ u = [] \<or> \<not> name_char_ic (last (pre @ u)))"
  using assms
proof (induction "match_at" k s arbitrary: pre rule: scan.induct)
  case (1 k)
  then show ?case by simp
next
  case (2 k c cs)
  have "\<exists>u v. cs = u @ t @ 64 # v \<and> t \<noteq> [] \<and> list_all name_char_ic t
    \<and> ((pre @ [c]) @ u = [] \<or> \<not> name_char_ic (last ((pre @ [c]) @ u)))"
  proof (rule 2(1))
    show "t \<in> set (scan match_at k cs)" using 2(2) by simp
    show "k = 0 \<longrightarrow> pre @ [c] = [] \<or> \<not> name_char_ic (last (pre @ [c])) \<or> match_at cs = None"
      using 2(4) not_name_char_ic_at by auto
    show "0 < k \<longrightarrow> k \<le> length cs \<and> cs ! (k - 1) = 64"
      using 2(4) by (cases k) auto
  qed
  then obtain u v where "cs = u @ t @ 64 # v" "t \<noteq> []" "list_all name_char_ic t"
    "\<not> name_char_ic (last (pre @ c # u))" by auto
  then have "c # cs = (c # u) @ t @ 64 # v \<and> t \<noteq> [] \<and> list_all name_char_ic t
    \<and> (pre @ c # u = [] \<or> \<not> name_char_ic (last (pre @ c # u)))" by simp
  then show ?case by blast
next
  case (3 c cs)
  show ?case
  proof (cases "match_at (c # cs)")
    case None
    have "\<exists>u v. cs = u @ t @ 64 # v \<and> t \<noteq> [] \<and> list_all name_char_ic t
      \<and> ((pre @ [c]) @ u = [] \<or> \<not> name_char_ic (last ((pre @ [c]) @ u)))"
    proof (rule 3(1) [OF None])
      show "t \<in> set (scan match_at 0 cs)" using 3(3) None by simp
      show "0 = 0 \<longrightarrow> pre @ [c] = [] \<or> \<not> name_char_ic (last (pre @ [c])) \<or> match_at cs = None"
        using match_at_tail [OF None] by auto
      show "0 < (0::nat) \<longrightarrow> 0 \<le> length cs \<and> cs ! (0 - 1) = 64" by simp
    qed
    then obtain u v where "cs = u @ t @ 64 # v" "t \<noteq> []" "list_all name_char_ic t"
      "\<not> name_char_ic (last (pre @ c # u))" by auto
    then have "c # cs = (c # u) @ t @ 64 # v \<and> t \<noteq> [] \<and> list_all name_char_ic t
      \<and> (pre @ c # u = [] \<or> \<not> name_char_ic (last (pre @ c # u)))" by simp
    then show ?thesis by blast
  next
    case (Some p)
    obtain tok n0 where p: "p = (tok, n0)" by (cases p)
    from Some p have "match_at (c # cs) = Some (tok, n0)" by simp
    then obtain w where w: "c # cs = tok @ 64 # w" "tok \<noteq> []" "list_all name_char_ic tok"
      "n0 = length tok + 1"
      unfolding match_at_iff by blast
    from 3(3) Some p consider "t = tok" | "t \<in> set (scan match_at (n0 - 1) cs)" by auto
    then show ?thesis
    proof cases
      case 1
      from 3(4) Some have "pre = [] \<or> \<not> name_char_ic (last pre)" by simp
      with 1 w have "c # cs = [] @ t @ 64 # w \<and> t \<noteq> [] \<and> list_all name_char_ic t
        \<and> (pre @ [] = [] \<or> \<not> name_char_ic (last (pre @ [])))" by simp
      then show ?thesis by blast
    next
      case 2
      from w(1,2) obtain tok' where tok': "tok = c # tok'" "cs = tok' @ 64 # w"
        by (cases tok) auto
      have "\<exists>u v. cs = u @ t @ 64 # v \<and> t \<noteq> [] \<and> list_all name_char_ic t
        \<and> ((pre @ [c]) @ u = [] \<or> \<not> name_char_ic (last ((pre @ [c]) @ u)))"
      proof (rule 3(2) [OF Some p [symmetric]])
        show "t \<in> set (scan match_at (n0 - 1) cs)" by (rule 2)
        show "n0 - 1 = 0 \<longrightarrow> pre @ [c] = [] \<or> \<not> name_char_ic (last (pre @ [c])) \<or> match_at cs = None"
          using w(2,4) by simp
        show "0 < n0 - 1 \<longrightarrow> n0 - 1 \<le> length cs \<and> cs ! (n0 - 1 - 1) = 64"
          using w(4) tok' by (simp add: nth_append)
      qed
      then obtain u v where "cs = u @ t @ 64 # v" "t \<noteq> []" "list_all name_char_ic t"
        "\<not> name_char_ic (last (pre @ c # u))" by auto
      then have "c # cs = (c # u) @ t @ 64 # v \<and> t \<noteq> [] \<and> list_all name_char_ic t
        \<and> (pre @ c # u = [] \<or> \<not> name_char_ic (last (pre @ c # u)))" by simp
      then show ?thesis by blast
    qed
  qed
qed

lemma findall_at_eq:
  "set (findall match_at content) =
     {t. \<exists>u v. content = u @ t @ 64 # v \<and> t \<noteq> [] \<and> list_all name_char_ic t
        \<and> (u = [] \<or> \<not> name_char_ic (last u))}"
proof (intro set_eqI iffI)
  fix t
  assume "t \<in> set (findall match_at content)"
  then have "t \<in> set (scan match_at 0 content)" by (simp add: findall_def)
  then have "\<exists>u v. content = u @ t @ 64 # v \<and> t \<noteq> [] \<and> list_all name_char_ic t
    \<and> ([] @ u = [] \<or> \<not> name_char_ic (last ([] @ u)))"
    by (rule scan_at_sound) simp_all
  then show "t \<in> {t. \<exists>u v. content = u @ t @ 64 # v \<and> t \<noteq> [] \<and> list_all name_char_ic t
        \<and> (u = [] \<or> \<not> name_char_ic (last u))}" by simp
next
  fix t
  assume "t \<in> {t. \<exists>u v. content = u @ t @ 64 # v \<and> t \<noteq> [] \<and> list_all name_char_ic t
        \<and> (u = [] \<or> \<not> name_char_ic (last u))}"
  then obtain u v where c: "content = u @ t @ 64 # v"
    and t: "t \<noteq> []" "list_all name_char_ic t" and u: "u = [] \<or> \<not> name_char_ic (last u)"
    by blast
  from c have d: "drop (length u) content = t @ 64 # v" by simp
  with t have m: "match_at (drop (length u) content) = Some (t, length t + 1)"
    unfolding match_at_iff by blast
  have "t \<in> set (scan match_at 0 content)"
  proof (rule scan_complete [OF match_at_Nil m])
    show "0 \<le> length u" by simp
    show "i + n' \<le> length u"
      if i: "i < length u" and m': "match_at (drop i content) = Some (t', n')" for i t' n'
    proof (rule ccontr)
      assume n: "\<not> i + n' \<le> length u"
      from m' obtain v' where v': "drop i content = t' @ 64 # v'" "list_all name_char_ic t'"
        "n' = length t' + 1"
        unfolding match_at_iff by blast
      from i have ne: "u \<noteq> []" by auto
      with u have nl: "\<not> name_char_ic (last u)" by simp
      from i ne have lu: "last u = content ! (length u - 1)"
        using c by (simp add: last_conv_nth nth_append)
      from i n v'(3) have r: "length u - 1 - i < length t'" "i \<le> length u - 1" by auto
      have "length u \<le> length content" by (simp add: c)
      with i have "i \<le> length content" by simp
      then have "drop i content ! (length u - 1 - i) = content ! (i + (length u - 1 - i))"
        by (rule nth_drop)
      moreover from r(2) have "i + (length u - 1 - i) = length u - 1" by arith
      ultimately have "content ! (length u - 1) = drop i content ! (length u - 1 - i)"
        by (simp only:)
      also have "\<dots> = t' ! (length u - 1 - i)"
        unfolding v'(1) using r(1) by (simp add: nth_append)
      finally have "last u \<in> set t'" using lu r(1) by (metis nth_mem)
      with v'(2) nl show False by (simp add: list_all_iff)
    qed
  qed
  then show "t \<in> set (findall match_at content)" by (simp add: findall_def)
qed

text \<open>The pattern of the names in bold.\<close>

lemma match_bold_iff:
  "match_bold s = Some (name, n) \<longleftrightarrow>
     (\<exists>sp v. s = py ''**'' @ name @ py ''**'' @ sp @ py ''-'' @ v
        \<and> name \<noteq> [] \<and> list_all bold_char name \<and> list_all is_space sp
        \<and> n = 2 + length name + 2 + length sp + 1)"
proof
  assume m: "match_bold s = Some (name, n)"
  then have s0: "startswith s (py ''**'')"
    by (auto simp: match_bold_def split: if_splits)
  then obtain s1 where s1: "s = py ''**'' @ s1" unfolding startswith_iff by blast
  from m s0 have nm: "takeWhile bold_char (drop 2 s) = name" "name \<noteq> []"
    and r0: "startswith (drop (2 + length name) s) (py ''**'')"
    by (auto simp: match_bold_def Let_def split: if_splits)
  from nm(1) s1 obtain w where w: "s1 = name @ w" "list_all bold_char name"
    unfolding takeWhile_eq_iff by auto
  from r0 s1 w(1) obtain r2 where r2: "w = py ''**'' @ r2"
    unfolding startswith_iff by auto
  from s1 w(1) r2 have rest: "drop (2 + length name) s = py ''**'' @ r2" by simp
  from m s0 nm r0
  have h: "startswith (drop (2 + length (takeWhile is_space (drop 2 (drop (2 + length name) s))))
              (drop (2 + length name) s)) (py ''-'')"
    and n: "n = 2 + length name + 2
          + length (takeWhile is_space (drop 2 (drop (2 + length name) s))) + 1"
    by (auto simp: match_bold_def Let_def split: if_splits)
  define sp where "sp = takeWhile is_space r2"
  from rest have sp': "takeWhile is_space (drop 2 (drop (2 + length name) s)) = sp"
    by (simp add: sp_def)
  from sp_def obtain x where x: "r2 = sp @ x" "list_all is_space sp"
    using takeWhile_eq_iff [of is_space r2 sp] by auto
  from h have "startswith (drop (2 + length sp) (py ''**'' @ r2)) (py ''-'')"
    unfolding sp' unfolding rest .
  then have "startswith (drop (length sp) r2) (py ''-'')" by (simp add: add_2_eq_Suc)
  with x(1) obtain v where v: "x = py ''-'' @ v" unfolding startswith_iff by auto
  from s1 w(1) r2 x(1) v have "s = py ''**'' @ name @ py ''**'' @ sp @ py ''-'' @ v" by simp
  moreover from n have "n = 2 + length name + 2 + length sp + 1" unfolding sp' .
  ultimately show "\<exists>sp v. s = py ''**'' @ name @ py ''**'' @ sp @ py ''-'' @ v
        \<and> name \<noteq> [] \<and> list_all bold_char name \<and> list_all is_space sp
        \<and> n = 2 + length name + 2 + length sp + 1"
    using nm(2) w(2) x(2) by blast
next
  assume "\<exists>sp v. s = py ''**'' @ name @ py ''**'' @ sp @ py ''-'' @ v
        \<and> name \<noteq> [] \<and> list_all bold_char name \<and> list_all is_space sp
        \<and> n = 2 + length name + 2 + length sp + 1"
  then obtain sp v where s: "s = py ''**'' @ name @ py ''**'' @ sp @ py ''-'' @ v"
    and nm: "name \<noteq> []" "list_all bold_char name" and sp: "list_all is_space sp"
    and n: "n = 2 + length name + 2 + length sp + 1" by blast
  have t1: "takeWhile bold_char (name @ py ''**'' @ sp @ py ''-'' @ v) = name"
    unfolding takeWhile_eq_iff using nm(2) by (auto simp: bold_char_def)
  have t2: "takeWhile is_space (sp @ py ''-'' @ v) = sp"
    unfolding takeWhile_eq_iff using sp by (auto simp: is_space_def)
  have a: "startswith s (py ''**'')" unfolding s startswith_iff by blast
  have b: "drop 2 s = name @ py ''**'' @ sp @ py ''-'' @ v" unfolding s by simp
  have c: "drop (2 + length name) s = py ''**'' @ sp @ py ''-'' @ v" unfolding s by simp
  have d: "drop 2 (py ''**'' @ sp @ py ''-'' @ v) = sp @ py ''-'' @ v" by simp
  have e: "drop (2 + length sp) (py ''**'' @ sp @ py ''-'' @ v) = py ''-'' @ v" by simp
  have f: "startswith (py ''**'' @ sp @ py ''-'' @ v) (py ''**'')"
    "startswith (py ''-'' @ v) (py ''-'')" unfolding startswith_iff by blast+
  show "match_bold s = Some (name, n)"
    unfolding match_bold_def Let_def b c d t1 t2 e using a f nm(1) n by simp
qed

lemma match_bold_Nil: "match_bold [] = None"
  by (simp add: match_bold_def startswith_def)

lemma findall_bold_sound:
  assumes "name \<in> set (findall match_bold content)"
  shows "\<exists>u sp v. content = u @ py ''**'' @ name @ py ''**'' @ sp @ py ''-'' @ v
    \<and> name \<noteq> [] \<and> list_all bold_char name \<and> list_all is_space sp"
proof -
  from assms obtain j n where "match_bold (drop j content) = Some (name, n)"
    unfolding findall_def by (blast dest: scan_sound)
  then obtain sp v where d: "drop j content = py ''**'' @ name @ py ''**'' @ sp @ py ''-'' @ v"
    and r: "name \<noteq> []" "list_all bold_char name" "list_all is_space sp"
    unfolding match_bold_iff by blast
  from d have "content = take j content @ py ''**'' @ name @ py ''**'' @ sp @ py ''-'' @ v"
    by (metis append_take_drop_id)
  with r show ?thesis by blast
qed

lemma findall_bold_complete:
  assumes c: "content = u @ py ''**'' @ name @ py ''**'' @ sp @ py ''-'' @ v"
    and r: "name \<noteq> []" "list_all bold_char name" "list_all is_space sp"
    and first: "\<And>u' name' sp' v'.
        content = u' @ py ''**'' @ name' @ py ''**'' @ sp' @ py ''-'' @ v' \<Longrightarrow>
        name' \<noteq> [] \<Longrightarrow> list_all bold_char name' \<Longrightarrow> list_all is_space sp' \<Longrightarrow>
        length u' < length u \<Longrightarrow>
        length u' + 2 + length name' + 2 + length sp' + 1 \<le> length u"
  shows "name \<in> set (findall match_bold content)"
proof -
  from c have "drop (length u) content = py ''**'' @ name @ py ''**'' @ sp @ py ''-'' @ v"
    by simp
  with r have m: "match_bold (drop (length u) content)
      = Some (name, 2 + length name + 2 + length sp + 1)"
    unfolding match_bold_iff by blast
  have "name \<in> set (scan match_bold 0 content)"
  proof (rule scan_complete [OF match_bold_Nil m])
    show "0 \<le> length u" by simp
    show "i + n' \<le> length u"
      if i: "i < length u" and m': "match_bold (drop i content) = Some (t', n')" for i t' n'
    proof -
      from m' obtain sp' v'
        where d: "drop i content = py ''**'' @ t' @ py ''**'' @ sp' @ py ''-'' @ v'"
          and r': "t' \<noteq> []" "list_all bold_char t'" "list_all is_space sp'"
          and n': "n' = 2 + length t' + 2 + length sp' + 1"
        unfolding match_bold_iff by blast
      from d have "content = take i content @ py ''**'' @ t' @ py ''**'' @ sp' @ py ''-'' @ v'"
        by (metis append_take_drop_id)
      moreover have "length u \<le> length content" by (simp add: c)
      with i have "length (take i content) = i" by simp
      ultimately have "length (take i content) + 2 + length t' + 2 + length sp' + 1 \<le> length u"
        using first [of "take i content" t' sp' v'] r' i by simp
      with \<open>length (take i content) = i\<close> n' show ?thesis by simp
    qed
  qed
  then show ?thesis by (simp add: findall_def)
qed


section \<open>Claims about the extraction of names\<close>

text \<open>
  C10. For every text, the set that \<open>extract_plugin_names_from_markdown\<close> returns contains
  none of the eight false positives, whatever the text mentions and in whichever of the
  three patterns.
\<close>

theorem extract_excludes_false_positives:
  "py ''claude-code-marketplace'' \<notin> extract_plugin_names_from_markdown content
   \<and> py ''marketplace'' \<notin> extract_plugin_names_from_markdown content
   \<and> py ''your-org'' \<notin> extract_plugin_names_from_markdown content
   \<and> py ''test'' \<notin> extract_plugin_names_from_markdown content
   \<and> py ''my-first-plugin'' \<notin> extract_plugin_names_from_markdown content
   \<and> py ''my-plugin'' \<notin> extract_plugin_names_from_markdown content
   \<and> py ''dev-marketplace'' \<notin> extract_plugin_names_from_markdown content
   \<and> py ''plugin-name'' \<notin> extract_plugin_names_from_markdown content"
  unfolding extract_eq false_positives_def by blast

text \<open>The install pattern finds \<open>test\<close>, and the result does not have it.\<close>

theorem extract_excludes_false_positives_witness:
  "findall match_install (py ''/plugin install test'') = [py ''test'']
   \<and> py ''test'' \<notin> extract_plugin_names_from_markdown (py ''/plugin install test'')"
  using extract_excludes_false_positives [of "py ''/plugin install test''"]
  by (simp add: regex_eval)

text \<open>
  C7, as stated, fails: the tokens of the first two patterns need not be lower-case. Both
  patterns carry \<open>re.IGNORECASE\<close> and the group is returned as it stands in the text, so
  \<open>/plugin install Foo\<close> and \<open>Foo@v1\<close> give the token \<open>Foo\<close>.
\<close>

theorem install_token_upper_case_counterexample:
  "findall match_install (py ''/plugin install Foo'') = [py ''Foo'']
   \<and> findall match_at (py ''Foo@v1'') = [py ''Foo'']
   \<and> py ''Foo'' \<in> extract_plugin_names_from_markdown (py ''/plugin install Foo'')
   \<and> \<not> list_all name_char (py ''Foo'')"
  by (simp add: extract_eq regex_eval false_positives_def kebab_def)

text \<open>
  C7, amended. The extracted set is the union of the tokens of the three patterns, the
  third one lower-cased with hyphens for spaces, minus the false positives. The tokens are
  pieces of the text, as they stand there:

  \<^item> the tokens of the first pattern are exactly the non-empty runs of characters that
    \<open>[a-z0-9-]\<close> matches when case is ignored (ASCII letters of either case, digits, the
    hyphen, and the four letters U+0130, U+0131, U+017F, U+212A) which stand directly
    behind an occurrence of \<open>/plugin install \<close>, read without regard to case, and are not
    followed by another such character;

  \<^item> the tokens of the second pattern are exactly the non-empty runs of such characters
    which stand directly before an \<open>@\<close> and are not preceded by another such character;

  \<^item> every name of the third pattern stands in the text between \<open>**\<close> and \<open>**\<close>, followed by
    white space (possibly none) and a hyphen; it is not empty, consists of ASCII letters,
    digits, spaces and hyphens, and once converted consists of lower-case letters, digits
    and hyphens only. Every such place of the text gives its name, unless an earlier such
    place reaches over its beginning.
\<close>

theorem extract_union_and_token_chars:
  "extract_plugin_names_from_markdown content =
     (set (findall match_install content) \<union> set (findall match_at content)
        \<union> kebab ` set (findall match_bold content)) - false_positives
   \<and> set (findall match_install content) =
       {t. \<exists>u l v. content = u @ l @ t @ v
          \<and> list_all2 lit_ic (py ''/plugin install '') l
          \<and> t \<noteq> [] \<and> list_all name_char_ic t \<and> (v = [] \<or> \<not> name_char_ic (hd v))}
   \<and> set (findall match_at content) =
       {t. \<exists>u v. content = u @ t @ py ''@'' @ v
          \<and> t \<noteq> [] \<and> list_all name_char_ic t \<and> (u = [] \<or> \<not> name_char_ic (last u))}
   \<and> (\<forall>name \<in> set (findall match_bold content).
         (\<exists>u sp v. content = u @ py ''**'' @ name @ py ''**'' @ sp @ py ''-'' @ v
            \<and> list_all is_space sp)
         \<and> name \<noteq> [] \<and> list_all bold_char name \<and> list_all name_char (kebab name))
   \<and> (\<forall>u name sp v.
         content = u @ py ''**'' @ name @ py ''**'' @ sp @ py ''-'' @ v
         \<and> name \<noteq> [] \<and> list_all bold_char name \<and> list_all is_space sp
         \<and> (\<forall>u' name' sp' v'.
               content = u' @ py ''**'' @ name' @ py ''**'' @ sp' @ py ''-'' @ v'
               \<and> name' \<noteq> [] \<and> list_all bold_char name' \<and> list_all is_space sp'
               \<and> length u' < length u
               \<longrightarrow> length (u' @ py ''**'' @ name' @ py ''**'' @ sp' @ py ''-'') \<le> length u)
         \<longrightarrow> name \<in> set (findall match_bold content))"
proof -
  have 1: "set (findall match_install content) =
       {t. \<exists>u l v. content = u @ l @ t @ v
          \<and> list_all2 lit_ic (py ''/plugin install '') l
          \<and> t \<noteq> [] \<and> list_all name_char_ic t \<and> (v = [] \<or> \<not> name_char_ic (hd v))}"
    by (rule findall_install_eq)
  have 2: "set (findall match_at content) =
       {t. \<exists>u v. content = u @ t @ py ''@'' @ v
          \<and> t \<noteq> [] \<and> list_all name_char_ic t \<and> (u = [] \<or> \<not> name_char_ic (last u))}"
    using findall_at_eq [of content] by simp
  have 3: "(\<exists>u sp v. content = u @ py ''**'' @ name @ py ''**'' @ sp @ py ''-'' @ v
            \<and> list_all is_space sp)
         \<and> name \<noteq> [] \<and> list_all bold_char name \<and> list_all name_char (kebab name)"
    if "name \<in> set (findall match_bold content)" for name
  proof -
    from findall_bold_sound [OF that]
    obtain u sp v where "content = u @ py ''**'' @ name @ py ''**'' @ sp @ py ''-'' @ v"
      "name \<noteq> []" "list_all bold_char name" "list_all is_space sp" by blast
    then show ?thesis using kebab_chars [of name] by blast
  qed
  have 4: "name \<in> set (findall match_bold content)"
    if c: "content = u @ py ''**'' @ name @ py ''**'' @ sp @ py ''-'' @ v"
      and r: "name \<noteq> []" "list_all bold_char name" "list_all is_space sp"
      and first: "\<forall>u' name' sp' v'.
               content = u' @ py ''**'' @ name' @ py ''**'' @ sp' @ py ''-'' @ v'
               \<and> name' \<noteq> [] \<and> list_all bold_char name' \<and> list_all is_space sp'
               \<and> length u' < length u
               \<longrightarrow> length (u' @ py ''**'' @ name' @ py ''**'' @ sp' @ py ''-'') \<le> length u"
    for u name sp v
  proof (rule findall_bold_complete [OF c r])
    fix u' name' sp' v'
    assume "content = u' @ py ''**'' @ name' @ py ''**'' @ sp' @ py ''-'' @ v'"
      "name' \<noteq> []" "list_all bold_char name'" "list_all is_space sp'" "length u' < length u"
    with first have "length (u' @ py ''**'' @ name' @ py ''**'' @ sp' @ py ''-'') \<le> length u"
      by blast
    then show "length u' + 2 + length name' + 2 + length sp' + 1 \<le> length u" by simp
  qed
  have b3: "\<forall>name \<in> set (findall match_bold content).
         (\<exists>u sp v. content = u @ py ''**'' @ name @ py ''**'' @ sp @ py ''-'' @ v
            \<and> list_all is_space sp)
         \<and> name \<noteq> [] \<and> list_all bold_char name \<and> list_all name_char (kebab name)"
    using 3 by (rule ballI)
  have b4: "\<forall>u name sp v.
         content = u @ py ''**'' @ name @ py ''**'' @ sp @ py ''-'' @ v
         \<and> name \<noteq> [] \<and> list_all bold_char name \<and> list_all is_space sp
         \<and> (\<forall>u' name' sp' v'.
               content = u' @ py ''**'' @ name' @ py ''**'' @ sp' @ py ''-'' @ v'
               \<and> name' \<noteq> [] \<and> list_all bold_char name' \<and> list_all is_space sp'
               \<and> length u' < length u
               \<longrightarrow> length (u' @ py ''**'' @ name' @ py ''**'' @ sp' @ py ''-'') \<le> length u)
         \<longrightarrow> name \<in> set (findall match_bold content)"
  proof (intro allI impI)
    fix u name sp v
    assume a: "content = u @ py ''**'' @ name @ py ''**'' @ sp @ py ''-'' @ v
         \<and> name \<noteq> [] \<and> list_all bold_char name \<and> list_all is_space sp
         \<and> (\<forall>u' name' sp' v'.
               content = u' @ py ''**'' @ name' @ py ''**'' @ sp' @ py ''-'' @ v'
               \<and> name' \<noteq> [] \<and> list_all bold_char name' \<and> list_all is_space sp'
               \<and> length u' < length u
               \<longrightarrow> length (u' @ py ''**'' @ name' @ py ''**'' @ sp' @ py ''-'') \<le> length u)"
    show "name \<in> set (findall match_bold content)"
      by (rule 4 [OF a [THEN conjunct1] a [THEN conjunct2, THEN conjunct1]
            a [THEN conjunct2, THEN conjunct2, THEN conjunct1]
            a [THEN conjunct2, THEN conjunct2, THEN conjunct2, THEN conjunct1]
            a [THEN conjunct2, THEN conjunct2, THEN conjunct2, THEN conjunct2]])
  qed
  show ?thesis
    by (rule conjI [OF extract_eq conjI [OF 1 conjI [OF 2 conjI [OF b3 b4]]]])
qed

text \<open>One line with a name in bold, an install command and a reference with \<open>@\<close>.\<close>

theorem extract_union_and_token_chars_witness:
  "findall match_install (py ''**My Tool** - /plugin install Foo bar@v'') = [py ''Foo'']
   \<and> findall match_at (py ''**My Tool** - /plugin install Foo bar@v'') = [py ''bar'']
   \<and> findall match_bold (py ''**My Tool** - /plugin install Foo bar@v'') = [py ''My Tool'']
   \<and> extract_plugin_names_from_markdown (py ''**My Tool** - /plugin install Foo bar@v'')
       = {py ''Foo'', py ''bar'', py ''my-tool''}
   \<and> (\<exists>u l v. py ''**My Tool** - /plugin install Foo bar@v'' = u @ l @ py ''Foo'' @ v
         \<and> list_all2 lit_ic (py ''/plugin install '') l)
   \<and> (\<exists>u v. py ''**My Tool** - /plugin install Foo bar@v'' = u @ py ''bar'' @ py ''@'' @ v)
   \<and> (\<exists>u sp v. py ''**My Tool** - /plugin install Foo bar@v''
         = u @ py ''**'' @ py ''My Tool'' @ py ''**'' @ sp @ py ''-'' @ v \<and> list_all is_space sp)
   \<and> list_all name_char (kebab (py ''My Tool''))
   \<and> py ''My Tool'' \<in> set (findall match_bold (py ''**My Tool** - /plugin install Foo bar@v''))"
proof -
  let ?c = "py ''**My Tool** - /plugin install Foo bar@v''"
  note t = extract_union_and_token_chars [of ?c]
  have f1: "findall match_install ?c = [py ''Foo'']" by (simp add: regex_eval)
  have f2: "findall match_at ?c = [py ''bar'']" by (simp add: regex_eval)
  have f3: "findall match_bold ?c = [py ''My Tool'']" by (simp add: regex_eval)
  have "extract_plugin_names_from_markdown ?c
      = (set [py ''Foo''] \<union> set [py ''bar''] \<union> kebab ` set [py ''My Tool'']) - false_positives"
    using t [THEN conjunct1] unfolding f1 f2 f3 .
  then have e: "extract_plugin_names_from_markdown ?c = {py ''Foo'', py ''bar'', py ''my-tool''}"
    by (simp add: kebab_def ascii_lower_def false_positives_def insert_commute)
  have "py ''Foo'' \<in> set (findall match_install ?c)" unfolding f1 by simp
  then have "py ''Foo'' \<in> {t. \<exists>u l v. ?c = u @ l @ t @ v
          \<and> list_all2 lit_ic (py ''/plugin install '') l
          \<and> t \<noteq> [] \<and> list_all name_char_ic t \<and> (v = [] \<or> \<not> name_char_ic (hd v))}"
    unfolding t [THEN conjunct2, THEN conjunct1] .
  then obtain u l v where "?c = u @ l @ py ''Foo'' @ v"
    "list_all2 lit_ic (py ''/plugin install '') l"
    by (elim CollectE exE conjE)
  then have w1: "\<exists>u l v. ?c = u @ l @ py ''Foo'' @ v
         \<and> list_all2 lit_ic (py ''/plugin install '') l" by (intro exI conjI)
  have "py ''bar'' \<in> set (findall match_at ?c)" unfolding f2 by simp
  then have "py ''bar'' \<in> {t. \<exists>u v. ?c = u @ t @ py ''@'' @ v
          \<and> t \<noteq> [] \<and> list_all name_char_ic t \<and> (u = [] \<or> \<not> name_char_ic (last u))}"
    unfolding t [THEN conjunct2, THEN conjunct2, THEN conjunct1] .
  then obtain u' v' where "?c = u' @ py ''bar'' @ py ''@'' @ v'"
    by (elim CollectE exE conjE)
  then have w2: "\<exists>u v. ?c = u @ py ''bar'' @ py ''@'' @ v" by (intro exI)
  have m: "py ''My Tool'' \<in> set (findall match_bold ?c)" unfolding f3 by simp
  note b = t [THEN conjunct2, THEN conjunct2, THEN conjunct2, THEN conjunct1, rule_format, OF m]
  have w3: "\<exists>u sp v. ?c = u @ py ''**'' @ py ''My Tool'' @ py ''**'' @ sp @ py ''-'' @ v
      \<and> list_all is_space sp"
    by (rule b [THEN conjunct1])
  have w4: "list_all name_char (kebab (py ''My Tool''))"
    by (rule b [THEN conjunct2, THEN conjunct2, THEN conjunct2])
  have w5: "py ''My Tool'' \<in> set (findall match_bold ?c)"
    by (rule t [THEN conjunct2, THEN conjunct2, THEN conjunct2, THEN conjunct2, rule_format,
          of "[]" "py ''My Tool''" "py '' ''" "py '' /plugin install Foo bar@v''"])
       (simp add: bold_char_def is_space_def)
  show ?thesis
    by (rule conjI [OF f1 conjI [OF f2 conjI [OF f3 conjI [OF e conjI [OF w1 conjI [OF w2
          conjI [OF w3 conjI [OF w4 w5]]]]]]]])
qed


section \<open>Claims about the sync checker\<close>

lemma read_plugin_info_Inr_iff:
  "(\<exists>info. read_plugin_info n f = Inr info) \<longleftrightarrow> (\<exists>kv. load_json f = Loaded (JObj kv))"
  by (auto split: load_result.splits json.splits)

lemma plugin_list_loop_keys:
  "fst ` set (snd (plugin_list_loop es (st, ps))) =
     fst ` set ps \<union> {n. \<exists>d f kv. (n, d) \<in> set es \<and> is_dir d
        \<and> resolve d [py ''.claude-plugin'', py ''plugin.json''] = Some f
        \<and> load_json f = Loaded (JObj kv)}"
proof (induction es "(st, ps)" arbitrary: st ps rule: plugin_list_loop.induct)
  case 1
  show ?case by simp
next
  case (2 dir_name plugin_dir es st plugins)
  show ?case
  proof (cases "is_dir plugin_dir")
    case False
    with 2(1) show ?thesis by auto
  next
    case dir: True
    show ?thesis
    proof (cases "resolve plugin_dir [py ''.claude-plugin'', py ''plugin.json'']")
      case None
      with dir 2(2) show ?thesis by auto
    next
      case (Some f)
      show ?thesis
      proof (cases "read_plugin_info dir_name f")
        case (Inl e)
        then have "\<not> (\<exists>kv. load_json f = Loaded (JObj kv))"
          using read_plugin_info_Inr_iff [of dir_name f] by auto
        with dir Some Inl 2(3) show ?thesis by auto
      next
        case (Inr info)
        then obtain kv where "load_json f = Loaded (JObj kv)"
          using read_plugin_info_Inr_iff [of dir_name f] by auto
        with dir Some Inr 2(4) show ?thesis by (auto simp: dom_update)
      qed
    qed
  qed
qed

lemma plugin_list_loop_errors:
  "errors (fst (plugin_list_loop es (st, ps))) = errors st"
  by (induction es "(st, ps)" arbitrary: st ps rule: plugin_list_loop.induct)
     (auto simp: add_warning_def split: option.splits sum.splits)

lemma plugin_list_loop_warnings:
  "warnings (fst (plugin_list_loop es (st, ps))) = warnings st @
     concat (map (\<lambda>(n, d).
        if is_dir d then
          (case resolve d [py ''.claude-plugin'', py ''plugin.json''] of
             None \<Rightarrow> []
           | Some f \<Rightarrow>
               (case load_json f of
                  Loaded data \<Rightarrow>
                    (case data of JObj kv \<Rightarrow> [] | _ \<Rightarrow> [could_not_read n (no_attribute_get data)])
                | JSONDecodeError e \<Rightarrow> [could_not_read n e]
                | OtherError e \<Rightarrow> [could_not_read n e]))
        else []) es)"
proof (induction es "(st, ps)" arbitrary: st ps rule: plugin_list_loop.induct)
  case 1
  show ?case by simp
next
  case (2 dir_name plugin_dir es st plugins)
  show ?case
  proof (cases "is_dir plugin_dir")
    case False
    with 2(1) show ?thesis by simp
  next
    case dir: True
    show ?thesis
    proof (cases "resolve plugin_dir [py ''.claude-plugin'', py ''plugin.json'']")
      case None
      with dir 2(2) show ?thesis by simp
    next
      case (Some f)
      show ?thesis
      proof (cases "read_plugin_info dir_name f")
        case (Inl e)
        with dir Some 2(3) show ?thesis
          by (auto simp: add_warning_def split: load_result.splits json.splits)
      next
        case (Inr info)
        with dir Some 2(4) show ?thesis
          by (auto split: load_result.splits json.splits)
      qed
    qed
  qed
qed

lemma get_plugin_list_errors:
  "get_plugin_list root st = Inr (st1, plugins) \<Longrightarrow> errors st1 = errors st"
  by (cases "(root, st)" rule: get_plugin_list.cases)
     (auto simp: plugin_list_loop_errors dest: arg_cong [where f = "\<lambda>p. errors (fst p)"])

text \<open>
  C2, as stated, fails: a directory whose manifest exists but is not valid JSON is left
  out of the plugin list; \<open>get_plugin_list\<close> catches the exception and only warns.
\<close>

theorem unparsable_manifest_not_migrated_counterexample:
  "resolve (Dir [(py ''.claude-plugin'', Dir [(py ''plugin.json'',
       File (JSONDecodeError (py ''Expecting value: line 1 column 1 (char 0)'')))])])
     [py ''.claude-plugin'', py ''plugin.json'']
   = Some (File (JSONDecodeError (py ''Expecting value: line 1 column 1 (char 0)'')))
   \<and> get_plugin_list
     (Some (Dir [(py ''bar'', Dir [(py ''.claude-plugin'', Dir [(py ''plugin.json'',
        File (JSONDecodeError (py ''Expecting value: line 1 column 1 (char 0)'')))])])]))
     \<lparr>errors = [], warnings = []\<rparr>
   = Inr (\<lparr>errors = [], warnings =
        [py ''Could not read plugin.json for bar: Expecting value: line 1 column 1 (char 0)'']\<rparr>, [])"
  by (simp add: add_warning_def could_not_read_def)

text \<open>
  C2, amended. A directory under the plugins root is in the plugin list of the sync
  checker if and only if its manifest exists and loads as a JSON object; which fields that
  object has, and of which types, does not matter. Building the list appends no error. It
  appends exactly one warning, \<open>Could not read plugin.json for\<close> the directory, with the
  text of the exception, for each directory whose manifest exists and does not load as a
  JSON object (unreadable, not valid JSON, or JSON of another type), in the order of the
  directories, and no other warning; so each such directory has a warning that names it and
  is not in the list.
\<close>

theorem migrated_iff_manifest_is_object:
  assumes "get_plugin_list (Some (Dir es)) st = Inr (st', plugins)"
  shows "fst ` set plugins =
     {n. \<exists>d f kv. (n, d) \<in> set es \<and> is_dir d
        \<and> resolve d [py ''.claude-plugin'', py ''plugin.json''] = Some f
        \<and> load_json f = Loaded (JObj kv)}
   \<and> errors st' = errors st
   \<and> warnings st' = warnings st @
     concat (map (\<lambda>(n, d).
        if is_dir d then
          (case resolve d [py ''.claude-plugin'', py ''plugin.json''] of
             None \<Rightarrow> []
           | Some f \<Rightarrow>
               (case load_json f of
                  Loaded data \<Rightarrow>
                    (case data of JObj kv \<Rightarrow> [] | _ \<Rightarrow> [could_not_read n (no_attribute_get data)])
                | JSONDecodeError e \<Rightarrow> [could_not_read n e]
                | OtherError e \<Rightarrow> [could_not_read n e]))
        else []) es)
   \<and> (\<forall>n d f. (n, d) \<in> set es \<and> is_dir d
          \<and> resolve d [py ''.claude-plugin'', py ''plugin.json''] = Some f
          \<and> (\<nexists>kv. load_json f = Loaded (JObj kv))
        \<longrightarrow> (\<exists>e. could_not_read n e \<in> set (warnings st')))"
proof -
  from assms have p: "plugins = snd (plugin_list_loop es (st, []))"
    and s: "st' = fst (plugin_list_loop es (st, []))" by auto
  have k: "fst ` set plugins =
     {n. \<exists>d f kv. (n, d) \<in> set es \<and> is_dir d
        \<and> resolve d [py ''.claude-plugin'', py ''plugin.json''] = Some f
        \<and> load_json f = Loaded (JObj kv)}"
    using plugin_list_loop_keys [of es st "[]"] by (simp add: p)
  have e: "errors st' = errors st" by (simp add: s plugin_list_loop_errors)
  have w: "warnings st' = warnings st @
     concat (map (\<lambda>(n, d).
        if is_dir d then
          (case resolve d [py ''.claude-plugin'', py ''plugin.json''] of
             None \<Rightarrow> []
           | Some f \<Rightarrow>
               (case load_json f of
                  Loaded data \<Rightarrow>
                    (case data of JObj kv \<Rightarrow> [] | _ \<Rightarrow> [could_not_read n (no_attribute_get data)])
                | JSONDecodeError e \<Rightarrow> [could_not_read n e]
                | OtherError e \<Rightarrow> [could_not_read n e]))
        else []) es)"
    unfolding s by (rule plugin_list_loop_warnings)
  have x: "\<exists>e. could_not_read n e \<in> set (warnings st')"
    if "(n, d) \<in> set es" "is_dir d"
       "resolve d [py ''.claude-plugin'', py ''plugin.json''] = Some f"
       "\<nexists>kv. load_json f = Loaded (JObj kv)" for n d f
  proof -
    have "\<exists>e. (case load_json f of
                  Loaded data \<Rightarrow>
                    (case data of JObj kv \<Rightarrow> [] | _ \<Rightarrow> [could_not_read n (no_attribute_get data)])
                | JSONDecodeError e \<Rightarrow> [could_not_read n e]
                | OtherError e \<Rightarrow> [could_not_read n e]) = [could_not_read n e]"
    proof (cases "load_json f")
      case (Loaded data)
      with that(4) show ?thesis by (cases data) auto
    qed auto
    then obtain e where "(case load_json f of
                  Loaded data \<Rightarrow>
                    (case data of JObj kv \<Rightarrow> [] | _ \<Rightarrow> [could_not_read n (no_attribute_get data)])
                | JSONDecodeError e \<Rightarrow> [could_not_read n e]
                | OtherError e \<Rightarrow> [could_not_read n e]) = [could_not_read n e]" ..
    with that(2,3) have "(\<lambda>(n, d).
        if is_dir d then
          (case resolve d [py ''.claude-plugin'', py ''plugin.json''] of
             None \<Rightarrow> []
           | Some f \<Rightarrow>
               (case load_json f of
                  Loaded data \<Rightarrow>
                    (case data of JObj kv \<Rightarrow> [] | _ \<Rightarrow> [could_not_read n (no_attribute_get data)])
                | JSONDecodeError e \<Rightarrow> [could_not_read n e]
                | OtherError e \<Rightarrow> [could_not_read n e]))
        else []) (n, d) = [could_not_read n e]"
      by simp
    then have "could_not_read n e \<in> set ((\<lambda>(n, d).
        if is_dir d then
          (case resolve d [py ''.claude-plugin'', py ''plugin.json''] of
             None \<Rightarrow> []
           | Some f \<Rightarrow>
               (case load_json f of
                  Loaded data \<Rightarrow>
                    (case data of JObj kv \<Rightarrow> [] | _ \<Rightarrow> [could_not_read n (no_attribute_get data)])
                | JSONDecodeError e \<Rightarrow> [could_not_read n e]
                | OtherError e \<Rightarrow> [could_not_read n e]))
        else []) (n, d))"
      by (simp only: list.set insert_iff simp_thms)
    with that(1) have "could_not_read n e \<in> set (warnings st')"
      unfolding w set_append set_concat set_map by blast
    then show ?thesis by blast
  qed
  from k e w x show ?thesis by blast
qed

text \<open>Four directories: a manifest without the required fields, a manifest that is a
  JSON array, a manifest that is not valid JSON, and no manifest. Only the first is listed;
  the second and the third have their warning each.\<close>

theorem migrated_iff_manifest_is_object_witness:
  "get_plugin_list
     (Some (Dir [(py ''foo'', Dir [(py ''.claude-plugin'', Dir [(py ''plugin.json'',
                    File (Loaded (JObj [(py ''version'', JInt 1)])))])]),
                 (py ''bar'', Dir [(py ''.claude-plugin'', Dir [(py ''plugin.json'',
                    File (Loaded (JArr [])))])]),
                 (py ''baz'', Dir [(py ''.claude-plugin'', Dir [(py ''plugin.json'',
                    File (JSONDecodeError (py ''Expecting value: line 1 column 1 (char 0)'')))])]),
                 (py ''old'', Dir [])]))
     \<lparr>errors = [], warnings = []\<rparr>
   = Inr (\<lparr>errors = [], warnings =
        [py ''Could not read plugin.json for bar: 'list' object has no attribute 'get'' @ [39],
         py ''Could not read plugin.json for baz: Expecting value: line 1 column 1 (char 0)'']\<rparr>,
      [(py ''foo'', \<lparr>info_name = JStr (py ''foo''), info_description = JStr [],
          info_version = JInt 1, info_path = py ''foo''\<rparr>)])
   \<and> fst ` set [(py ''foo'', \<lparr>info_name = JStr (py ''foo''), info_description = JStr [],
          info_version = JInt 1, info_path = py ''foo''\<rparr>)] =
     {n. \<exists>d f kv. (n, d) \<in> set [(py ''foo'', Dir [(py ''.claude-plugin'', Dir [(py ''plugin.json'',
                    File (Loaded (JObj [(py ''version'', JInt 1)])))])]),
                 (py ''bar'', Dir [(py ''.claude-plugin'', Dir [(py ''plugin.json'',
                    File (Loaded (JArr [])))])]),
                 (py ''baz'', Dir [(py ''.claude-plugin'', Dir [(py ''plugin.json'',
                    File (JSONDecodeError (py ''Expecting value: line 1 column 1 (char 0)'')))])]),
                 (py ''old'', Dir [])] \<and> is_dir d
        \<and> resolve d [py ''.claude-plugin'', py ''plugin.json''] = Some f
        \<and> load_json f = Loaded (JObj kv)}
   \<and> (\<exists>e. could_not_read (py ''bar'') e \<in> set
        [py ''Could not read plugin.json for bar: 'list' object has no attribute 'get'' @ [39],
         py ''Could not read plugin.json for baz: Expecting value: line 1 column 1 (char 0)''])
   \<and> (\<exists>e. could_not_read (py ''baz'') e \<in> set
        [py ''Could not read plugin.json for bar: 'list' object has no attribute 'get'' @ [39],
         py ''Could not read plugin.json for baz: Expecting value: line 1 column 1 (char 0)''])"
proof -
  have run: "get_plugin_list
     (Some (Dir [(py ''foo'', Dir [(py ''.claude-plugin'', Dir [(py ''plugin.json'',
                    File (Loaded (JObj [(py ''version'', JInt 1)])))])]),
                 (py ''bar'', Dir [(py ''.claude-plugin'', Dir [(py ''plugin.json'',
                    File (Loaded (JArr [])))])]),
                 (py ''baz'', Dir [(py ''.claude-plugin'', Dir [(py ''plugin.json'',
                    File (JSONDecodeError (py ''Expecting value: line 1 column 1 (char 0)'')))])]),
                 (py ''old'', Dir [])]))
     \<lparr>errors = [], warnings = []\<rparr>
   = Inr (\<lparr>errors = [], warnings =
        [py ''Could not read plugin.json for bar: 'list' object has no attribute 'get'' @ [39],
         py ''Could not read plugin.json for baz: Expecting value: line 1 column 1 (char 0)'']\<rparr>,
      [(py ''foo'', \<lparr>info_name = JStr (py ''foo''), info_description = JStr [],
          info_version = JInt 1, info_path = py ''foo''\<rparr>)])"
    by (simp add: add_warning_def could_not_read_def dict_get_def no_attribute_get_def quoted_def)
  note t = migrated_iff_manifest_is_object [OF run]
  have bar: "\<exists>e. could_not_read (py ''bar'') e \<in> set
        [py ''Could not read plugin.json for bar: 'list' object has no attribute 'get'' @ [39],
         py ''Could not read plugin.json for baz: Expecting value: line 1 column 1 (char 0)'']"
    using t [THEN conjunct2, THEN conjunct2, THEN conjunct2, rule_format,
        of "py ''bar''" "Dir [(py ''.claude-plugin'', Dir [(py ''plugin.json'',
                    File (Loaded (JArr [])))])]" "File (Loaded (JArr []))"]
    by simp
  have baz: "\<exists>e. could_not_read (py ''baz'') e \<in> set
        [py ''Could not read plugin.json for bar: 'list' object has no attribute 'get'' @ [39],
         py ''Could not read plugin.json for baz: Expecting value: line 1 column 1 (char 0)'']"
    using t [THEN conjunct2, THEN conjunct2, THEN conjunct2, rule_format,
        of "py ''baz''" "Dir [(py ''.claude-plugin'', Dir [(py ''plugin.json'',
                    File (JSONDecodeError (py ''Expecting value: line 1 column 1 (char 0)'')))])]"
           "File (JSONDecodeError (py ''Expecting value: line 1 column 1 (char 0)''))"]
    by simp
  from run t [THEN conjunct1] bar baz show ?thesis by blast
qed

text \<open>
  C4. In the CI mode (\<open>GITHUB_ACTIONS\<close> is \<open>true\<close>), when \<open>git diff\<close> has returned 0 and
  the list of changed files is its output, stripped and split at newlines:
  \<open>validate_on_pr\<close> appends its one error and fails if and only if some changed path
  starts with \<open>plugins/\<close> and neither \<open>README.md\<close> nor \<open>plugins.md\<close> is in the list;
  otherwise it succeeds and changes nothing. A return code other than 0, an exception of
  the subprocess, and a run outside the CI all succeed and change nothing.
\<close>

theorem validate_on_pr_error_iff:
  "validate_on_pr True (Completed 0 out) st =
     (if (\<exists>f \<in> set (split_nl (strip out)). startswith f (py ''plugins/''))
         \<and> py ''README.md'' \<notin> set (split_nl (strip out))
         \<and> py ''plugins.md'' \<notin> set (split_nl (strip out))
      then (add_error pr_error_msg st, False) else (st, True))
   \<and> (rc \<noteq> 0 \<longrightarrow> validate_on_pr True (Completed rc out') st = (st, True))
   \<and> validate_on_pr True (RunRaised e) st = (st, True)
   \<and> validate_on_pr False diff st = (st, True)"
  by (auto simp: validate_on_pr_def Let_def filter_empty_conv)

text \<open>The two scenarios of the specification, and a failing \<open>git diff\<close>.\<close>

theorem validate_on_pr_error_iff_witness:
  "validate_on_pr True (Completed 0 (py ''plugins/foo/commands/x.md'' @ [10]))
     \<lparr>errors = [], warnings = []\<rparr> = (\<lparr>errors = [pr_error_msg], warnings = []\<rparr>, False)
   \<and> validate_on_pr True
       (Completed 0 (py ''plugins/foo/commands/x.md'' @ [10] @ py ''README.md'' @ [10]))
       \<lparr>errors = [], warnings = []\<rparr> = (\<lparr>errors = [], warnings = []\<rparr>, True)
   \<and> validate_on_pr True (Completed 128 []) \<lparr>errors = [], warnings = []\<rparr>
       = (\<lparr>errors = [], warnings = []\<rparr>, True)"
proof -
  have s1: "split_nl (strip (py ''plugins/foo/commands/x.md'' @ [10]))
     = [py ''plugins/foo/commands/x.md'']"
    by (simp add: strip_def is_space_def)
  have s2: "split_nl (strip (py ''plugins/foo/commands/x.md'' @ [10] @ py ''README.md'' @ [10]))
     = [py ''plugins/foo/commands/x.md'', py ''README.md'']"
    by (simp add: strip_def is_space_def)
  have p: "startswith (py ''plugins/foo/commands/x.md'') (py ''plugins/'')"
    by (simp add: startswith_def)
  from validate_on_pr_error_iff [of "py ''plugins/foo/commands/x.md'' @ [10]"
         "\<lparr>errors = [], warnings = []\<rparr>" 128 "[]"]
       validate_on_pr_error_iff [of "py ''plugins/foo/commands/x.md'' @ [10] @ py ''README.md'' @ [10]"
         "\<lparr>errors = [], warnings = []\<rparr>"]
  show ?thesis unfolding s1 s2 using p by (simp add: add_error_def)
qed


lemma check_missing_eq:
  "check_missing file_name content plugins st =
     (st\<lparr>warnings := warnings st @
        (if fst ` set plugins \<subseteq> extract_plugin_names_from_markdown content then []
         else [file_name @ py '' may be missing these plugins: '' @ join (py '', '')
                 (sorted_list_of_set (fst ` set plugins - extract_plugin_names_from_markdown content))])\<rparr>,
      fst ` set plugins \<subseteq> extract_plugin_names_from_markdown content)"
  by (auto simp: check_missing_def Let_def add_warning_def)

lemmas sync_eval = validate_marketplace_sync_def check_missing_eq extract_eq regex_eval
  false_positives_def add_warning_def could_not_read_def dict_get_def kebab_def ascii_lower_def

text \<open>
  C6. The documentation texts that the sync checker compares with the plugin list are
  \<open>README.md\<close>, whenever it exists, and \<open>plugins.md\<close>, when it exists and is a catalog in
  the sense of C9. For every run that completes: no error is added; behind the warnings of
  the plugin list, each compared text adds exactly one warning, which lists the sorted
  missing names joined by commas, if some plugin name is not among the names extracted from
  that text, and adds nothing if all names are among them. A missing \<open>README.md\<close> adds
  the warning \<open>README.md not found\<close>; with an empty plugin list nothing is compared and
  nothing is added. (A file that cannot be read raises, so that the run does not complete.)
\<close>

theorem sync_warnings_for_checked_texts:
  assumes run: "validate_marketplace_sync r st = Inr (st', ok)"
      and plugins: "get_plugin_list (plugins_dir r) st = Inr (st1, plugins)"
  shows "errors st' = errors st
    \<and> warnings st' = warnings st1 @
        (if plugins = [] then []
         else (case readme r of
                 None \<Rightarrow> [py ''README.md not found'']
               | Some (Content c) \<Rightarrow>
                   if fst ` set plugins \<subseteq> extract_plugin_names_from_markdown c then []
                   else [py ''README.md may be missing these plugins: '' @ join (py '', '')
                     (sorted_list_of_set (fst ` set plugins - extract_plugin_names_from_markdown c))]
               | Some (ReadError e) \<Rightarrow> [])
            @ (case plugins_md r of
                 Some (Content c') \<Rightarrow>
                   if str_in (py ''# Plugins'') c' \<and> \<not> str_in (py ''## Quickstart'') c'
                      \<and> \<not> fst ` set plugins \<subseteq> extract_plugin_names_from_markdown c'
                   then [py ''plugins.md may be missing these plugins: '' @ join (py '', '')
                     (sorted_list_of_set (fst ` set plugins - extract_plugin_names_from_markdown c'))]
                   else []
               | _ \<Rightarrow> []))"
proof -
  have e1: "errors st1 = errors st" using plugins by (rule get_plugin_list_errors)
  show ?thesis
  proof (cases "plugins = []")
    case True
    with run plugins e1 show ?thesis by (simp add: validate_marketplace_sync_def)
  next
    case ne: False
    obtain st2 rv where rd: "check_readme (readme r) plugins st1 = Inr (st2, rv)"
      using run plugins ne
      by (cases "check_readme (readme r) plugins st1")
         (auto simp: validate_marketplace_sync_def)
    obtain pv where md: "check_plugins_md (plugins_md r) plugins st2 = Inr (st', pv)"
      using run plugins ne rd
      by (cases "check_plugins_md (plugins_md r) plugins st2")
         (auto simp: validate_marketplace_sync_def)
    have r1: "errors st2 = errors st1 \<and> warnings st2 = warnings st1 @
        (case readme r of
                 None \<Rightarrow> [py ''README.md not found'']
               | Some (Content c) \<Rightarrow>
                   if fst ` set plugins \<subseteq> extract_plugin_names_from_markdown c then []
                   else [py ''README.md may be missing these plugins: '' @ join (py '', '')
                     (sorted_list_of_set (fst ` set plugins - extract_plugin_names_from_markdown c))]
               | Some (ReadError e) \<Rightarrow> [])"
    proof (cases "readme r")
      case None
      with rd show ?thesis by (auto simp: add_warning_def)
    next
      case (Some x)
      show ?thesis
      proof (cases x)
        case (Content c)
        with rd Some have "st2 = fst (check_missing (py ''README.md'') c plugins st1)" by simp
        with Some Content show ?thesis by (simp add: check_missing_eq)
      next
        case (ReadError e)
        with rd Some show ?thesis by simp
      qed
    qed
    have r2: "errors st' = errors st2 \<and> warnings st' = warnings st2 @
        (case plugins_md r of
                 Some (Content c') \<Rightarrow>
                   if str_in (py ''# Plugins'') c' \<and> \<not> str_in (py ''## Quickstart'') c'
                      \<and> \<not> fst ` set plugins \<subseteq> extract_plugin_names_from_markdown c'
                   then [py ''plugins.md may be missing these plugins: '' @ join (py '', '')
                     (sorted_list_of_set (fst ` set plugins - extract_plugin_names_from_markdown c'))]
                   else []
               | _ \<Rightarrow> [])"
    proof (cases "plugins_md r")
      case None
      with md show ?thesis by auto
    next
      case (Some x)
      show ?thesis
      proof (cases x)
        case (Content c)
        show ?thesis
        proof (cases "str_in (py ''# Plugins'') c \<and> \<not> str_in (py ''## Quickstart'') c")
          case True
          with md Some Content
          have "st' = fst (check_missing (py ''plugins.md'') c plugins st2)" by simp
          with Some Content True show ?thesis by (simp add: check_missing_eq)
        next
          case False
          with md Some Content have "st' = st2" by auto
          with Some Content False show ?thesis by auto
        qed
      next
        case (ReadError e)
        with md Some show ?thesis by simp
      qed
    qed
    from r1 r2 e1 ne show ?thesis by simp
  qed
qed

text \<open>
  C9. For every content of \<open>plugins.md\<close>, in a run that completes with a non-empty plugin
  list: behind the warnings of the \<open>README.md\<close> block, the set difference for
  \<open>plugins.md\<close> is reported exactly if the content has \<open># Plugins\<close> somewhere in it and
  \<open>## Quickstart\<close> nowhere; otherwise nothing is added, whatever the difference is.
\<close>

theorem plugins_md_checked_iff_catalog:
  assumes run: "validate_marketplace_sync r st = Inr (st', ok)"
      and plugins: "get_plugin_list (plugins_dir r) st = Inr (st1, plugins)" "plugins \<noteq> []"
      and md: "plugins_md r = Some (Content c)"
  shows "\<exists>st2 readme_valid. check_readme (readme r) plugins st1 = Inr (st2, readme_valid)
    \<and> warnings st' = warnings st2
        @ (if (\<exists>u v. c = u @ py ''# Plugins'' @ v) \<and> \<not> (\<exists>u v. c = u @ py ''## Quickstart'' @ v)
           then (if fst ` set plugins \<subseteq> extract_plugin_names_from_markdown c then []
                 else [py ''plugins.md may be missing these plugins: '' @ join (py '', '')
                   (sorted_list_of_set (fst ` set plugins - extract_plugin_names_from_markdown c))])
           else [])"
proof (cases "check_readme (readme r) plugins st1")
  case (Inl e)
  with run plugins show ?thesis by (simp add: validate_marketplace_sync_def)
next
  case (Inr s2)
  obtain st2 rv where s2: "s2 = (st2, rv)" by (cases s2)
  show ?thesis unfolding str_in_iff [symmetric] using run plugins md Inr s2
    by (auto simp: validate_marketplace_sync_def check_missing_eq
             split: if_splits intro: rev_image_eqI)
qed

text \<open>The scenario of the specification: \<open>foo\<close> and \<open>bar\<close> have manifests, \<open>README.md\<close>
  mentions \<open>foo\<close> only; \<open>plugins.md\<close> is a catalog that mentions \<open>bar\<close> only. And the same
  plugins without \<open>README.md\<close>, with a catalog that mentions \<open>foo\<close> only.\<close>

theorem sync_warnings_for_checked_texts_witness:
  "validate_marketplace_sync
     \<lparr>plugins_dir = Some (Dir
        [(py ''foo'', Dir [(py ''.claude-plugin'', Dir [(py ''plugin.json'', File (Loaded (JObj [])))])]),
         (py ''bar'', Dir [(py ''.claude-plugin'', Dir [(py ''plugin.json'', File (Loaded (JObj [])))])])]),
      readme = Some (Content (py ''/plugin install foo'')),
      plugins_md = Some (Content (py ''# Plugins **Bar** - a plugin''))\<rparr>
     \<lparr>errors = [], warnings = []\<rparr>
   = Inr (\<lparr>errors = [], warnings = [py ''README.md may be missing these plugins: bar'',
        py ''plugins.md may be missing these plugins: foo'']\<rparr>, False)
   \<and> extract_plugin_names_from_markdown (py ''/plugin install foo'') = {py ''foo''}
   \<and> extract_plugin_names_from_markdown (py ''# Plugins **Bar** - a plugin'') = {py ''bar''}
   \<and> validate_marketplace_sync
     \<lparr>plugins_dir = Some (Dir
        [(py ''foo'', Dir [(py ''.claude-plugin'', Dir [(py ''plugin.json'', File (Loaded (JObj [])))])]),
         (py ''bar'', Dir [(py ''.claude-plugin'', Dir [(py ''plugin.json'', File (Loaded (JObj [])))])])]),
      readme = None,
      plugins_md = Some (Content (py ''# Plugins /plugin install foo''))\<rparr>
     \<lparr>errors = [], warnings = []\<rparr>
   = Inr (\<lparr>errors = [], warnings = [py ''README.md not found'',
        py ''plugins.md may be missing these plugins: bar'']\<rparr>, False)"
proof -
  let ?pd = "Some (Dir
        [(py ''foo'', Dir [(py ''.claude-plugin'', Dir [(py ''plugin.json'', File (Loaded (JObj [])))])]),
         (py ''bar'', Dir [(py ''.claude-plugin'', Dir [(py ''plugin.json'', File (Loaded (JObj [])))])])])"
  let ?r = "\<lparr>plugins_dir = ?pd,
      readme = Some (Content (py ''/plugin install foo'')),
      plugins_md = Some (Content (py ''# Plugins **Bar** - a plugin''))\<rparr>"
  let ?r' = "\<lparr>plugins_dir = ?pd,
      readme = None,
      plugins_md = Some (Content (py ''# Plugins /plugin install foo''))\<rparr>"
  let ?st = "\<lparr>errors = [], warnings = []\<rparr>"
  let ?ps = "[(py ''foo'', \<lparr>info_name = JStr (py ''foo''), info_description = JStr [],
                 info_version = JStr [], info_path = py ''foo''\<rparr>),
              (py ''bar'', \<lparr>info_name = JStr (py ''bar''), info_description = JStr [],
                 info_version = JStr [], info_path = py ''bar''\<rparr>)]"
  have ex: "extract_plugin_names_from_markdown (py ''/plugin install foo'') = {py ''foo''}"
    by (simp add: extract_eq regex_eval false_positives_def)
  have ex': "extract_plugin_names_from_markdown (py ''# Plugins **Bar** - a plugin'') = {py ''bar''}"
    by (simp add: extract_eq regex_eval false_positives_def kebab_def ascii_lower_def)
  have gpl: "get_plugin_list (plugins_dir ?r) ?st = Inr (?st, ?ps)"
    and gpl': "get_plugin_list (plugins_dir ?r') ?st = Inr (?st, ?ps)"
    by (simp_all add: dict_get_def)
  have run: "validate_marketplace_sync ?r ?st
    = Inr (\<lparr>errors = [], warnings = [py ''README.md may be missing these plugins: bar'',
        py ''plugins.md may be missing these plugins: foo'']\<rparr>, False)"
    by (simp add: sync_eval insert_Diff_if)
  have run': "validate_marketplace_sync ?r' ?st
    = Inr (\<lparr>errors = [], warnings = [py ''README.md not found'',
        py ''plugins.md may be missing these plugins: bar'']\<rparr>, False)"
    by (simp add: sync_eval)
  from sync_warnings_for_checked_texts [OF run gpl] sync_warnings_for_checked_texts [OF run' gpl']
    run run' ex ex'
  show ?thesis by blast
qed

text \<open>A catalog that mentions nothing, and the same with a Quickstart heading.\<close>

theorem plugins_md_checked_iff_catalog_witness:
  "validate_marketplace_sync
     \<lparr>plugins_dir = Some (Dir
        [(py ''foo'', Dir [(py ''.claude-plugin'', Dir [(py ''plugin.json'', File (Loaded (JObj [])))])])]),
      readme = None,
      plugins_md = Some (Content (py ''# Plugins''))\<rparr>
     \<lparr>errors = [], warnings = []\<rparr>
   = Inr (\<lparr>errors = [], warnings = [py ''README.md not found'',
        py ''plugins.md may be missing these plugins: foo'']\<rparr>, False)
  \<and> validate_marketplace_sync
     \<lparr>plugins_dir = Some (Dir
        [(py ''foo'', Dir [(py ''.claude-plugin'', Dir [(py ''plugin.json'', File (Loaded (JObj [])))])])]),
      readme = None,
      plugins_md = Some (Content (py ''# Plugins ## Quickstart''))\<rparr>
     \<lparr>errors = [], warnings = []\<rparr>
   = Inr (\<lparr>errors = [], warnings = [py ''README.md not found'']\<rparr>, True)"
proof -
  let ?pd = "Some (Dir
        [(py ''foo'', Dir [(py ''.claude-plugin'', Dir [(py ''plugin.json'', File (Loaded (JObj [])))])])])"
  let ?r1 = "\<lparr>plugins_dir = ?pd, readme = None, plugins_md = Some (Content (py ''# Plugins''))\<rparr>"
  let ?r2 = "\<lparr>plugins_dir = ?pd, readme = None, plugins_md = Some (Content (py ''# Plugins ## Quickstart''))\<rparr>"
  let ?st = "\<lparr>errors = [], warnings = []\<rparr>"
  let ?ps = "[(py ''foo'', \<lparr>info_name = JStr (py ''foo''), info_description = JStr [],
                 info_version = JStr [], info_path = py ''foo''\<rparr>)]"
  have gpl1: "get_plugin_list (plugins_dir ?r1) ?st = Inr (?st, ?ps)"
    and gpl2: "get_plugin_list (plugins_dir ?r2) ?st = Inr (?st, ?ps)"
    by (simp_all add: dict_get_def)
  have ne: "?ps \<noteq> []" by simp
  have md1: "plugins_md ?r1 = Some (Content (py ''# Plugins''))"
    and md2: "plugins_md ?r2 = Some (Content (py ''# Plugins ## Quickstart''))" by simp_all
  have run1: "validate_marketplace_sync ?r1 ?st
     = Inr (\<lparr>errors = [], warnings = [py ''README.md not found'',
        py ''plugins.md may be missing these plugins: foo'']\<rparr>, False)"
    by (simp add: sync_eval)
  have run2: "validate_marketplace_sync ?r2 ?st
     = Inr (\<lparr>errors = [], warnings = [py ''README.md not found'']\<rparr>, True)"
    by (simp add: sync_eval)
  from plugins_md_checked_iff_catalog [OF run1 gpl1 ne md1] plugins_md_checked_iff_catalog [OF run2 gpl2 ne md2] run1 run2
  show ?thesis by blast
qed


section \<open>The checks of the schema validator append to the report\<close>

lemma extend_Nil [simp]: "extend [] [] st = st"
  by (simp add: extend_def)

lemma extend_extend [simp]: "extend es ws (extend es' ws' st) = extend (es' @ es) (ws' @ ws) st"
  by (simp add: extend_def)

lemma add_error_extend: "add_error m st = extend [m] [] st"
  by (simp add: add_error_def extend_def)

lemma add_warning_extend: "add_warning m st = extend [] [m] st"
  by (simp add: add_warning_def extend_def)

lemma errors_extend [simp]: "errors (extend es ws st) = errors st @ es"
  and warnings_extend [simp]: "warnings (extend es ws st) = warnings st @ ws"
  by (simp_all add: extend_def)

lemma validated_extend [simp]: "validated_plugins (extend es ws st) = validated_plugins st"
  by (simp add: extend_def)

lemma checksI: "list_all P es \<Longrightarrow> (\<And>st. f st = (extend es ws st, es = [])) \<Longrightarrow> checks P f"
  unfolding checks_def by blast

lemma logsI: "list_all P es \<Longrightarrow> (\<And>st ok. g (st, ok) = (extend es ws st, ok \<and> es = [])) \<Longrightarrow> logs P g"
  unfolding logs_def by blast

lemma logs_id: "logs P (\<lambda>s. s)"
  by (rule logsI [of P "[]" _ "[]"]) simp_all

lemma logs_comp:
  assumes "logs P g" "logs P h"
  shows "logs P (\<lambda>s. h (g s))"
proof -
  from assms(1) obtain es ws where g: "list_all P es" "\<And>st ok. g (st, ok) = (extend es ws st, ok \<and> es = [])"
    unfolding logs_def by blast
  from assms(2) obtain es' ws' where h: "list_all P es'" "\<And>st ok. h (st, ok) = (extend es' ws' st, ok \<and> es' = [])"
    unfolding logs_def by blast
  show ?thesis
    by (rule logsI [of P "es @ es'" _ "ws @ ws'"]) (use g h in auto)
qed

lemma logs_fail_if: "(bad \<Longrightarrow> P msg) \<Longrightarrow> logs P (fail_if bad msg)"
proof (cases bad)
  case True
  assume "bad \<Longrightarrow> P msg"
  with True have "P msg" by simp
  then show ?thesis
    by (intro logsI [of P "[msg]" _ "[]"]) (simp_all add: fail_if_def add_error_extend True)
next
  case False
  then show ?thesis
    by (intro logsI [of P "[]" _ "[]"]) (simp_all add: fail_if_def)
qed

lemma logs_of_checks:
  assumes "checks P f"
  shows "logs P (\<lambda>s. case f (fst s) of (st', ok) \<Rightarrow> (st', if \<not> ok then False else snd s))"
proof -
  from assms obtain es ws where f: "list_all P es" "\<And>st. f st = (extend es ws st, es = [])"
    unfolding checks_def by blast
  show ?thesis by (rule logsI [of P es _ ws]) (use f in auto)
qed

lemma checks_of_logs:
  assumes "logs P g"
  shows "checks P (\<lambda>st. g (st, True))"
proof -
  from assms obtain es ws where g: "list_all P es" "\<And>st ok. g (st, ok) = (extend es ws st, ok \<and> es = [])"
    unfolding logs_def by blast
  show ?thesis by (rule checksI [of P es _ ws]) (use g in auto)
qed

lemma checks_error: "P msg \<Longrightarrow> checks P (\<lambda>st. (add_error msg st, False))"
  by (rule checksI [of P "[msg]" _ "[]"]) (simp_all add: add_error_extend)

lemma checks_mono: "checks P f \<Longrightarrow> (\<And>m. P m \<Longrightarrow> Q m) \<Longrightarrow> checks Q f"
  unfolding checks_def list_all_iff by blast

lemma logs_mono: "logs P g \<Longrightarrow> (\<And>m. P m \<Longrightarrow> Q m) \<Longrightarrow> logs Q g"
  unfolding logs_def list_all_iff by blast

lemma must_be_nonempty_inj [simp]:
  "must_be_nonempty n f = must_be_nonempty n g \<longleftrightarrow> f = g"
  by (simp add: must_be_nonempty_def quoted_def)

lemma other_msg:
  "tail \<notin> (\<lambda>f. py ''plugin.json '' @ quoted f @ py '' must be a non-empty string'') ` set PLUGIN_JSON_REQUIRED_FIELDS
   \<Longrightarrow> not_required_msg n (tag n @ tail)"
  by (auto simp: must_be_nonempty_def)

lemma checks_validate_author_field:
  "checks (not_required_msg n) (validate_author_field author n)"
proof (cases author)
  case (JObj kv)
  show ?thesis
  proof (cases "map_of kv (py ''name'')")
    case None
    have "checks (not_required_msg n) (\<lambda>st. (add_error (tag n @ py ''plugin.json 'author' must have a 'name' field'') st, False))"
      by (rule checks_error, rule other_msg) (simp add: PLUGIN_JSON_REQUIRED_FIELDS_def quoted_def)
    with JObj None show ?thesis by (simp add: validate_author_field_def [abs_def])
  next
    case (Some a)
    show ?thesis
    proof (cases "nonempty_str a")
      case False
      have "checks (not_required_msg n) (\<lambda>st. (add_error (must_be_nonempty n (py ''author.name'')) st, False))"
        by (rule checks_error) (simp add: PLUGIN_JSON_REQUIRED_FIELDS_def)
      with JObj Some False show ?thesis by (simp add: validate_author_field_def [abs_def])
    next
      case True
      let ?g1 = "\<lambda>s. case map_of kv (py ''email'') of None \<Rightarrow> s
                  | Some email \<Rightarrow> fail_if (\<not> nonempty_str email) (must_be_nonempty n (py ''author.email'')) s"
      let ?g2 = "\<lambda>s. case map_of kv (py ''url'') of None \<Rightarrow> s
                  | Some url \<Rightarrow> fail_if (\<not> nonempty_str url) (must_be_nonempty n (py ''author.url'')) s"
      have 1: "logs (not_required_msg n) ?g1"
        by (cases "map_of kv (py ''email'')")
           (auto intro!: logs_id logs_fail_if simp: PLUGIN_JSON_REQUIRED_FIELDS_def)
      have 2: "logs (not_required_msg n) ?g2"
        by (cases "map_of kv (py ''url'')")
           (auto intro!: logs_id logs_fail_if simp: PLUGIN_JSON_REQUIRED_FIELDS_def)
      have F: "checks (not_required_msg n) (\<lambda>st. ?g2 (?g1 (st, True)))"
        by (rule checks_of_logs [OF logs_comp [OF 1 2]])
      have eq: "validate_author_field author n = (\<lambda>st. ?g2 (?g1 (st, True)))"
        using JObj Some True
        by (intro ext) (simp add: validate_author_field_def Let_def split: option.splits)
      show ?thesis unfolding eq by (rule F)
    qed
  qed
qed (simp_all add: validate_author_field_def [abs_def],
     (rule checks_error, rule other_msg, simp add: PLUGIN_JSON_REQUIRED_FIELDS_def quoted_def)+)

lemma not_required_must_be_nonempty:
  "f \<notin> set PLUGIN_JSON_REQUIRED_FIELDS \<Longrightarrow> not_required_msg n (must_be_nonempty n f)"
  by (simp add: image_iff)

lemma logs_check_author: "logs (not_required_msg n) (check_author kv n)"
proof (cases "map_of kv (py ''author'')")
  case None
  then have e: "check_author kv n = (\<lambda>s. s)"
    by (intro ext) (simp add: check_author_def)
  show ?thesis unfolding e by (rule logs_id)
next
  case (Some a)
  then have e: "check_author kv n =
      (\<lambda>s. case validate_author_field a n (fst s) of (st', ok) \<Rightarrow> (st', if \<not> ok then False else snd s))"
    by (intro ext) (simp add: check_author_def)
  show ?thesis unfolding e by (rule logs_of_checks [OF checks_validate_author_field])
qed

lemma logs_check_optional_str:
  assumes "f \<notin> set PLUGIN_JSON_REQUIRED_FIELDS"
  shows "logs (not_required_msg n) (check_optional_str kv n f)"
proof (cases "map_of kv f")
  case None
  then have e: "check_optional_str kv n f = (\<lambda>s. s)"
    by (intro ext) (simp add: check_optional_str_def)
  show ?thesis unfolding e by (rule logs_id)
next
  case (Some v)
  then have e: "check_optional_str kv n f = fail_if (\<not> nonempty_str v) (must_be_nonempty n f)"
    by (intro ext) (simp add: check_optional_str_def)
  show ?thesis unfolding e
    by (rule logs_fail_if) (rule not_required_must_be_nonempty [OF assms])
qed

lemma not_required_literals:
  "not_required_msg n (tag n @ py ''plugin.json 'keywords' must contain only strings'')"
  "not_required_msg n (tag n @ py ''plugin.json 'keywords' must be an array'')"
  "not_required_msg n (tag n @ py ''plugin.json 'commands' array must contain only strings'')"
  "not_required_msg n (tag n @ py ''plugin.json 'commands' must be a string or array'')"
  by (rule other_msg, simp add: PLUGIN_JSON_REQUIRED_FIELDS_def quoted_def)+

lemma logs_check_keywords: "logs (not_required_msg n) (check_keywords kv n)"
proof (cases "map_of kv (py ''keywords'')")
  case None
  then have e: "check_keywords kv n = (\<lambda>s. s)"
    by (intro ext) (simp add: check_keywords_def)
  show ?thesis unfolding e by (rule logs_id)
next
  case (Some v)
  show ?thesis
  proof (cases "\<exists>ks. v = JArr ks")
    case True
    then obtain ks where "v = JArr ks" by blast
    with Some have e: "check_keywords kv n = fail_if (\<not> list_all is_str ks)
        (tag n @ py ''plugin.json 'keywords' must contain only strings'')"
      by (intro ext) (simp add: check_keywords_def)
    show ?thesis unfolding e by (rule logs_fail_if) (rule not_required_literals)
  next
    case False
    with Some have e: "check_keywords kv n =
        fail_if True (tag n @ py ''plugin.json 'keywords' must be an array'')"
      by (intro ext) (cases v; simp add: check_keywords_def)
    show ?thesis unfolding e by (rule logs_fail_if) (rule not_required_literals)
  qed
qed

lemma logs_check_commands: "logs (not_required_msg n) (check_commands kv n)"
proof (cases "map_of kv (py ''commands'')")
  case None
  then have e: "check_commands kv n = (\<lambda>s. s)"
    by (intro ext) (simp add: check_commands_def)
  show ?thesis unfolding e by (rule logs_id)
next
  case (Some v)
  consider ks where "v = JArr ks" | c where "v = JStr c"
    | "\<not> (\<exists>ks. v = JArr ks)" "\<not> (\<exists>c. v = JStr c)" by blast
  then show ?thesis
  proof cases
    case 1
    with Some have e: "check_commands kv n = fail_if (\<not> list_all is_str ks)
        (tag n @ py ''plugin.json 'commands' array must contain only strings'')"
      by (intro ext) (simp add: check_commands_def)
    show ?thesis unfolding e by (rule logs_fail_if) (rule not_required_literals)
  next
    case 2
    with Some have e: "check_commands kv n = (\<lambda>s. s)"
      by (intro ext) (simp add: check_commands_def)
    show ?thesis unfolding e by (rule logs_id)
  next
    case 3
    with Some have e: "check_commands kv n =
        fail_if True (tag n @ py ''plugin.json 'commands' must be a string or array'')"
      by (intro ext) (cases v; simp add: check_commands_def)
    show ?thesis unfolding e by (rule logs_fail_if) (rule not_required_literals)
  qed
qed

lemma logs_o: "logs P g \<Longrightarrow> logs P h \<Longrightarrow> logs P (h \<circ> g)"
  unfolding o_def by (rule logs_comp)

lemma check_optional_fields_o:
  "check_optional_fields kv n =
     check_optional_str kv n (py ''mcpServers'') \<circ> check_optional_str kv n (py ''hooks'')
     \<circ> check_optional_str kv n (py ''agents'') \<circ> check_commands kv n \<circ> check_keywords kv n
     \<circ> check_optional_str kv n (py ''license'') \<circ> check_optional_str kv n (py ''repository'')
     \<circ> check_optional_str kv n (py ''homepage'') \<circ> check_author kv n"
  by (rule ext) (simp only: check_optional_fields_def Let_def o_apply)

lemma logs_check_optional_fields: "logs (not_required_msg n) (check_optional_fields kv n)"
  unfolding check_optional_fields_o
  by (intro logs_o logs_check_author logs_check_keywords logs_check_commands
        logs_check_optional_str)
     (simp_all add: PLUGIN_JSON_REQUIRED_FIELDS_def)

lemma checks_warning: "checks P (\<lambda>st. (add_warning msg st, True))"
  by (rule checksI [of P "[]" _ "[msg]"]) (simp_all add: add_warning_extend)

lemma checks_ok: "checks P (\<lambda>st. (st, True))"
  by (rule checksI [of P "[]" _ "[]"]) simp_all

lemma check_required_types_eq:
  "check_required_types kv n (st, ok) =
     (extend (map (must_be_nonempty n) (filter (\<lambda>f. \<not> required_ok kv f) PLUGIN_JSON_REQUIRED_FIELDS)) [] st,
      ok \<and> filter (\<lambda>f. \<not> required_ok kv f) PLUGIN_JSON_REQUIRED_FIELDS = [])"
  by (simp add: check_required_types_def Let_def fail_if_def add_error_extend
        PLUGIN_JSON_REQUIRED_FIELDS_def)

lemma logs_check_required_types: "logs any_msg (check_required_types kv n)"
  by (rule logsI [of _ "map (must_be_nonempty n)
         (filter (\<lambda>f. \<not> required_ok kv f) PLUGIN_JSON_REQUIRED_FIELDS)" _ "[]"])
     (simp_all add: check_required_types_eq list_all_iff)

lemma missing_fields_JObj:
  "missing_fields fs (JObj kv) = Inr (filter (\<lambda>f. map_of kv f = None) fs)"
  by (induction fs) auto

lemma validate_manifest_data_absent:
  assumes "filter (\<lambda>f. map_of kv f = None) PLUGIN_JSON_REQUIRED_FIELDS \<noteq> []"
  shows "validate_manifest_data (JObj kv) n st =
     (add_error (tag n @ py ''plugin.json missing required fields: ''
        @ join (py '', '') (filter (\<lambda>f. map_of kv f = None) PLUGIN_JSON_REQUIRED_FIELDS)) st, False)"
  using assms by (simp add: validate_manifest_data_def missing_fields_JObj)

lemma validate_manifest_data_present:
  assumes "filter (\<lambda>f. map_of kv f = None) PLUGIN_JSON_REQUIRED_FIELDS = []"
  shows "validate_manifest_data (JObj kv) n st =
     check_optional_fields kv n (check_required_types kv n (st, True))"
  using assms by (simp add: validate_manifest_data_def missing_fields_JObj)

lemma checks_validate_manifest_data: "checks any_msg (validate_manifest_data data n)"
proof (cases "missing_fields PLUGIN_JSON_REQUIRED_FIELDS data")
  case (Inl e)
  then have e: "validate_manifest_data data n = (\<lambda>st. (add_error (error_reading n e) st, False))"
    by (intro ext) (simp add: validate_manifest_data_def)
  show ?thesis unfolding e by (rule checks_error) simp
next
  case (Inr missing)
  show ?thesis
  proof (cases "missing = []")
    case False
    with Inr have e: "validate_manifest_data data n =
        (\<lambda>st. (add_error (tag n @ py ''plugin.json missing required fields: ''
               @ join (py '', '') missing) st, False))"
      by (intro ext) (simp add: validate_manifest_data_def)
    show ?thesis unfolding e by (rule checks_error) simp
  next
    case True
    show ?thesis
    proof (cases "\<exists>kv. data = JObj kv")
      case obj: True
      then obtain kv where "data = JObj kv" by blast
      with Inr True have e: "validate_manifest_data data n =
          (\<lambda>st. check_optional_fields kv n (check_required_types kv n (st, True)))"
        by (intro ext) (simp add: validate_manifest_data_def)
      have "logs any_msg (check_optional_fields kv n)"
        by (rule logs_mono [OF logs_check_optional_fields]) simp
      from checks_of_logs [OF logs_comp [OF logs_check_required_types this]]
      show ?thesis unfolding e .
    next
      case False
      with Inr True have e: "validate_manifest_data data n =
          (\<lambda>st. (add_error (error_reading n (no_attribute_get data)) st, False))"
        by (intro ext) (cases data; simp add: validate_manifest_data_def)
      show ?thesis unfolding e by (rule checks_error) simp
    qed
  qed
qed


lemma checks_validate_mcp_json: "checks any_msg (validate_mcp_json f n)"
proof (cases "load_json f")
  case (Loaded data)
  then have e: "validate_mcp_json f n = (\<lambda>st. (st, True))"
    by (intro ext) (simp add: validate_mcp_json_def)
  show ?thesis unfolding e by (rule checks_ok)
next
  case (JSONDecodeError x)
  then have e: "validate_mcp_json f n =
      (\<lambda>st. (add_error (tag n @ py ''Invalid JSON in .mcp.json: '' @ x) st, False))"
    by (intro ext) (simp add: validate_mcp_json_def)
  show ?thesis unfolding e by (rule checks_error) simp
next
  case (OtherError x)
  then have e: "validate_mcp_json f n =
      (\<lambda>st. (add_warning (tag n @ py ''Error reading .mcp.json: '' @ x) st, True))"
    by (intro ext) (simp add: validate_mcp_json_def)
  show ?thesis unfolding e by (rule checks_warning)
qed

lemma checks_validate_markdown_files: "checks any_msg (validate_markdown_files d dn n)"
proof (cases "glob_suffix (py ''.md'') d = []")
  case True
  then have e: "validate_markdown_files d dn n =
      (\<lambda>st. (add_warning (tag n @ dn @ py ''/ directory exists but contains no .md files'') st, True))"
    by (intro ext) (simp add: validate_markdown_files_def)
  show ?thesis unfolding e by (rule checks_warning)
next
  case False
  then have e: "validate_markdown_files d dn n = (\<lambda>st. (st, True))"
    by (intro ext) (simp add: validate_markdown_files_def)
  show ?thesis unfolding e by (rule checks_ok)
qed

lemma checks_exnI_raise: "(\<And>st. f st = Inl e) \<Longrightarrow> checks_exn f"
  unfolding checks_exn_def by blast

lemma checks_exnI: "(\<And>st. f st = Inr (extend es ws st, es = [])) \<Longrightarrow> checks_exn f"
  unfolding checks_exn_def by blast

lemma logs_exnI_raise: "(\<And>s. g s = Inl e) \<Longrightarrow> logs_exn g"
  unfolding logs_exn_def by blast

lemma logs_exnI: "(\<And>st ok. g (st, ok) = Inr (extend es ws st, ok \<and> es = [])) \<Longrightarrow> logs_exn g"
  unfolding logs_exn_def by blast

lemma logs_exn_of_logs:
  assumes "logs P g"
  shows "logs_exn (\<lambda>s. Inr (g s))"
proof -
  from assms obtain es ws where "\<And>st ok. g (st, ok) = (extend es ws st, ok \<and> es = [])"
    unfolding logs_def by blast
  then show ?thesis by (intro logs_exnI [of _ es ws]) simp
qed

lemma logs_exn_bind:
  assumes "logs_exn g" "logs_exn h"
  shows "logs_exn (\<lambda>s. case g s of Inl e \<Rightarrow> Inl e | Inr s' \<Rightarrow> h s')"
proof -
  from assms(1) consider e where "\<And>s. g s = Inl e"
    | es ws where "\<And>st ok. g (st, ok) = Inr (extend es ws st, ok \<and> es = [])"
    unfolding logs_exn_def by blast
  then show ?thesis
  proof cases
    case 1
    then show ?thesis by (intro logs_exnI_raise [of _ e]) simp
  next
    case g: 2
    from assms(2) consider e where "\<And>s. h s = Inl e"
      | es' ws' where "\<And>st ok. h (st, ok) = Inr (extend es' ws' st, ok \<and> es' = [])"
      unfolding logs_exn_def by blast
    then show ?thesis
    proof cases
      case 1
      show ?thesis
      proof (rule logs_exnI_raise [of _ e])
        fix s :: "'a report_scheme \<times> bool"
        obtain st ok where "s = (st, ok)" by (cases s)
        then show "(case g s of Inl e \<Rightarrow> Inl e | Inr s' \<Rightarrow> h s') = Inl e"
          by (simp add: g 1)
      qed
    next
      case 2
      show ?thesis
        by (rule logs_exnI [of _ "es @ es'" "ws @ ws'"]) (auto simp: g 2)
    qed
  qed
qed

lemma logs_exn_of_checks_exn:
  assumes "checks_exn f"
  shows "logs_exn (\<lambda>s. case f (fst s) of Inl e \<Rightarrow> Inl e
                      | Inr (st', ok) \<Rightarrow> Inr (st', if \<not> ok then False else snd s))"
proof -
  from assms consider e where "\<And>st. f st = Inl e"
    | es ws where "\<And>st. f st = Inr (extend es ws st, es = [])"
    unfolding checks_exn_def by blast
  then show ?thesis
  proof cases
    case 1
    then show ?thesis by (intro logs_exnI_raise [of _ e]) simp
  next
    case 2
    show ?thesis by (rule logs_exnI [of _ es ws]) (auto simp: 2)
  qed
qed

lemma skills_loop_extend:
  "\<exists>ws. \<forall>st :: 'a report_scheme. skills_loop ds n st = extend [] ws st"
proof (induction ds)
  case Nil
  have "\<forall>st :: 'a report_scheme. skills_loop [] n st = extend [] [] st" by simp
  then show ?case by blast
next
  case (Cons d ds)
  then obtain ws where ws: "\<And>st :: 'a report_scheme. skills_loop ds n st = extend [] ws st"
    by blast
  obtain sn sd where d: "d = (sn, sd)" by (cases d)
  show ?case
  proof (cases "child sd (py ''SKILL.md'')")
    case None
    have "\<forall>st :: 'a report_scheme. skills_loop (d # ds) n st =
       extend [] ((tag n @ py ''Skill directory '' @ quoted sn @ py '' missing SKILL.md'') # ws) st"
      using None by (simp add: d ws add_warning_extend)
    then show ?thesis by blast
  next
    case (Some y)
    have "\<forall>st :: 'a report_scheme. skills_loop (d # ds) n st = extend [] ws st"
      using Some by (simp add: d ws)
    then show ?thesis by blast
  qed
qed

lemma checks_exn_validate_skills: "checks_exn (validate_skills d n)"
proof (cases d)
  case (File r)
  then show ?thesis by (intro checks_exnI_raise [of _ NotADirectoryError]) simp
next
  case (Dir es)
  show ?thesis
  proof (cases "filter (\<lambda>e. is_dir (snd e)) es = []")
    case True
    show ?thesis
      by (rule checks_exnI [of _ "[]" "[tag n @ py ''skills/ directory exists but contains no skill directories'']"])
         (simp add: Dir True add_warning_extend)
  next
    case False
    from skills_loop_extend [of "filter (\<lambda>e. is_dir (snd e)) es" n, where ?'a = 'a]
    obtain ws where
      ws: "\<And>st :: 'a report_scheme.
             skills_loop (filter (\<lambda>e. is_dir (snd e)) es) n st = extend [] ws st" by blast
    show ?thesis
      by (rule checks_exnI [of _ "[]" ws]) (simp add: Dir False ws)
  qed
qed

lemma logs_exn_json_files_loop:
  "logs_exn (json_files_loop fs n :: 'a report_scheme \<times> bool \<Rightarrow> exn + 'a report_scheme \<times> bool)"
proof (induction fs)
  case Nil
  show ?case by (rule logs_exnI [of _ "[]" "[]"]) simp
next
  case (Cons x fs)
  obtain fn f where x: "x = (fn, f)" by (cases x)
  show ?case
  proof (cases "load_json f")
    case (Loaded data)
    have e: "(json_files_loop (x # fs) n :: 'a report_scheme \<times> bool \<Rightarrow> _) = json_files_loop fs n"
    proof
      fix s :: "'a report_scheme \<times> bool"
      obtain st ok where "s = (st, ok)" by (cases s)
      then show "json_files_loop (x # fs) n s = json_files_loop fs n s"
        by (simp add: x Loaded)
    qed
    show ?thesis unfolding e by (rule Cons.IH)
  next
    case (JSONDecodeError err)
    let ?m = "tag n @ py ''Invalid JSON in '' @ fn @ py '': '' @ err"
    have e: "(json_files_loop (x # fs) n :: 'a report_scheme \<times> bool \<Rightarrow> _) =
       (\<lambda>s. case Inr (fail_if True ?m s) of Inl e \<Rightarrow> Inl e | Inr s' \<Rightarrow> json_files_loop fs n s')"
    proof
      fix s :: "'a report_scheme \<times> bool"
      obtain st ok where "s = (st, ok)" by (cases s)
      then show "json_files_loop (x # fs) n s =
         (case Inr (fail_if True ?m s) of Inl e \<Rightarrow> Inl e | Inr s' \<Rightarrow> json_files_loop fs n s')"
        by (simp add: x JSONDecodeError fail_if_def)
    qed
    have "logs any_msg (fail_if True ?m :: 'a report_scheme \<times> bool \<Rightarrow> _)"
      by (rule logs_fail_if) simp
    from logs_exn_bind [OF logs_exn_of_logs [OF this] Cons.IH]
    show ?thesis unfolding e .
  next
    case (OtherError err)
    show ?thesis
    proof (rule logs_exnI_raise [of _ "Uncaught err"])
      fix s :: "'a report_scheme \<times> bool"
      obtain st ok where "s = (st, ok)" by (cases s)
      then show "json_files_loop (x # fs) n s = Inl (Uncaught err)"
        by (simp add: x OtherError)
    qed
  qed
qed

lemma checks_exn_validate_json_files: "checks_exn (validate_json_files d dn n)"
proof (cases "glob_suffix (py ''.json'') d = []")
  case True
  show ?thesis
    by (rule checks_exnI [of _ "[]" "[tag n @ dn @ py ''/ directory exists but contains no .json files'']"])
       (use True in \<open>simp add: validate_json_files_def add_warning_extend\<close>)
next
  case False
  from logs_exn_json_files_loop [of "glob_suffix (py ''.json'') d" n, where ?'a = 'a]
  consider e where "\<And>s :: 'a report_scheme \<times> bool. json_files_loop (glob_suffix (py ''.json'') d) n s = Inl e"
    | es ws where "\<And>(st :: 'a report_scheme) ok.
        json_files_loop (glob_suffix (py ''.json'') d) n (st, ok) = Inr (extend es ws st, ok \<and> es = [])"
    unfolding logs_exn_def by blast
  then show ?thesis
  proof cases
    case 1
    show ?thesis
      by (rule checks_exnI_raise [of _ e]) (use False 1 in \<open>simp add: validate_json_files_def\<close>)
  next
    case 2
    show ?thesis
      by (rule checks_exnI [of _ es ws]) (use False 2 in \<open>simp add: validate_json_files_def\<close>)
  qed
qed


lemma logs_exn_check_optional_dir:
  "logs_exn (check_optional_dir d n od :: 'a report_scheme \<times> bool \<Rightarrow> exn + 'a report_scheme \<times> bool)"
proof (cases "child d od")
  case None
  then have e: "(check_optional_dir d n od :: 'a report_scheme \<times> bool \<Rightarrow> _) = (\<lambda>s. Inr s)"
    by (intro ext) (simp add: check_optional_dir_def)
  show ?thesis unfolding e by (rule logs_exn_of_logs [OF logs_id])
next
  case (Some p)
  consider "od = py ''commands'' \<or> od = py ''agents''" | "od = py ''skills''" | "od = py ''hooks''"
    | "od \<noteq> py ''commands''" "od \<noteq> py ''agents''" "od \<noteq> py ''skills''" "od \<noteq> py ''hooks''"
    by blast
  then show ?thesis
  proof cases
    case 1
    with Some have e: "(check_optional_dir d n od :: 'a report_scheme \<times> bool \<Rightarrow> _) =
       (\<lambda>s. Inr (case validate_markdown_files p od n (fst s) of
                    (st', ok) \<Rightarrow> (st', if \<not> ok then False else snd s)))"
      by (intro ext) (auto simp: check_optional_dir_def split: prod.splits)
    show ?thesis unfolding e
      by (rule logs_exn_of_logs [OF logs_of_checks [OF checks_validate_markdown_files]])
  next
    case 2
    with Some have e: "(check_optional_dir d n od :: 'a report_scheme \<times> bool \<Rightarrow> _) =
       (\<lambda>s. case validate_skills p n (fst s) of Inl e \<Rightarrow> Inl e
             | Inr (st', ok) \<Rightarrow> Inr (st', if \<not> ok then False else snd s))"
      by (intro ext) (simp add: check_optional_dir_def)
    show ?thesis unfolding e
      by (rule logs_exn_of_checks_exn [OF checks_exn_validate_skills])
  next
    case 3
    with Some have e: "(check_optional_dir d n od :: 'a report_scheme \<times> bool \<Rightarrow> _) =
       (\<lambda>s. case validate_json_files p od n (fst s) of Inl e \<Rightarrow> Inl e
             | Inr (st', ok) \<Rightarrow> Inr (st', if \<not> ok then False else snd s))"
      by (intro ext) (simp add: check_optional_dir_def)
    show ?thesis unfolding e
      by (rule logs_exn_of_checks_exn [OF checks_exn_validate_json_files])
  next
    case 4
    with Some have e: "(check_optional_dir d n od :: 'a report_scheme \<times> bool \<Rightarrow> _) = (\<lambda>s. Inr s)"
      by (intro ext) (simp add: check_optional_dir_def)
    show ?thesis unfolding e by (rule logs_exn_of_logs [OF logs_id])
  qed
qed

lemma logs_exn_check_optional_dirs:
  "logs_exn (check_optional_dirs d n ods :: 'a report_scheme \<times> bool \<Rightarrow> exn + 'a report_scheme \<times> bool)"
proof (induction ods)
  case Nil
  have e: "(check_optional_dirs d n [] :: 'a report_scheme \<times> bool \<Rightarrow> _) = (\<lambda>s. Inr s)"
    by (intro ext) simp
  show ?case unfolding e by (rule logs_exn_of_logs [OF logs_id])
next
  case (Cons od ods)
  have e: "(check_optional_dirs d n (od # ods) :: 'a report_scheme \<times> bool \<Rightarrow> _) =
     (\<lambda>s. case check_optional_dir d n od s of Inl e \<Rightarrow> Inl e | Inr s' \<Rightarrow> check_optional_dirs d n ods s')"
    by (intro ext) simp
  show ?case unfolding e by (rule logs_exn_bind [OF logs_exn_check_optional_dir Cons.IH])
qed

lemma logs_check_optional_file: "logs any_msg (check_optional_file d n opt)"
proof (cases "child d opt")
  case None
  then have e: "check_optional_file d n opt = (\<lambda>s. s)"
    by (intro ext) (simp add: check_optional_file_def)
  show ?thesis unfolding e by (rule logs_id)
next
  case (Some f)
  show ?thesis
  proof (cases "opt = py ''.mcp.json''")
    case True
    with Some have e: "check_optional_file d n opt =
       (\<lambda>s. case validate_mcp_json f n (fst s) of (st', ok) \<Rightarrow> (st', if \<not> ok then False else snd s))"
      by (intro ext) (simp add: check_optional_file_def)
    show ?thesis unfolding e by (rule logs_of_checks [OF checks_validate_mcp_json])
  next
    case False
    with Some have e: "check_optional_file d n opt = (\<lambda>s. s)"
      by (intro ext) (simp add: check_optional_file_def)
    show ?thesis unfolding e by (rule logs_id)
  qed
qed

lemma logs_fold_optional_files: "logs any_msg (fold (check_optional_file d n) opts)"
proof (induction opts)
  case Nil
  have e: "fold (check_optional_file d n) [] = (\<lambda>s. s)" by (intro ext) simp
  show ?case unfolding e by (rule logs_id)
next
  case (Cons opt opts)
  have e: "fold (check_optional_file d n) (opt # opts) =
     (\<lambda>s. fold (check_optional_file d n) opts (check_optional_file d n opt s))"
    by (intro ext) simp
  show ?case unfolding e by (rule logs_comp [OF logs_check_optional_file Cons.IH])
qed


lemmas validator_eval = validate_plugin_def check_required_files_def manifest_path_def
  missing_required_file_def validate_plugin_json_def validate_manifest_data_def
  PLUGIN_JSON_REQUIRED_FIELDS_def OPTIONAL_DIRS_def OPTIONAL_FILES_def
  check_required_types_def check_optional_fields_def check_author_def check_optional_str_def
  check_keywords_def check_commands_def validate_author_field_def required_ok_def
  must_be_nonempty_def error_reading_def no_attribute_get_def quoted_def tag_def fail_if_def
  add_error_def add_warning_def check_optional_dir_def check_optional_file_def
  validate_markdown_files_def validate_json_files_def validate_mcp_json_def endswith_def
  Let_def

lemma logs_False:
  assumes "logs P g"
  shows "\<exists>es ws. g (st, False) = (extend es ws st, False)"
proof -
  from assms obtain es ws where "\<And>st ok. g (st, ok) = (extend es ws st, ok \<and> es = [])"
    unfolding logs_def by blast
  from this [of st False] show ?thesis by auto
qed

lemma logs_exn_False:
  assumes "logs_exn g" "g (st, False) = Inr s'"
  shows "\<exists>es ws. s' = (extend es ws st, False)"
proof -
  from assms(1) consider e where "\<And>s. g s = Inl e"
    | es ws where "\<And>st ok. g (st, ok) = Inr (extend es ws st, ok \<and> es = [])"
    unfolding logs_exn_def by blast
  then show ?thesis
  proof cases
    case 1
    with assms(2) show ?thesis by simp
  next
    case 2
    from 2 [of st False] assms(2) show ?thesis by auto
  qed
qed

text \<open>Once the first loop has found the plugin invalid, the other two loops still run, and
  the plugin is not added to the validated set.\<close>

lemma validate_plugin_invalid:
  assumes "check_required_files d n (st, True) = (st1, False)"
  shows "validate_plugin (n, d) st =
     (case check_optional_dirs d n OPTIONAL_DIRS (st1, False) of
        Inl e \<Rightarrow> Inl e
      | Inr s \<Rightarrow> Inr (fst (fold (check_optional_file d n) OPTIONAL_FILES s), False))"
proof (cases "check_optional_dirs d n OPTIONAL_DIRS (st1, False)")
  case (Inl e)
  with assms show ?thesis by (simp add: validate_plugin_def)
next
  case (Inr s)
  from logs_exn_False [OF logs_exn_check_optional_dirs Inr]
  obtain es ws where s: "s = (extend es ws st1, False)" by blast
  from logs_False [OF logs_fold_optional_files, of d n OPTIONAL_FILES "extend es ws st1"]
  obtain es' ws' where "fold (check_optional_file d n) OPTIONAL_FILES s = (extend es' ws' (extend es ws st1), False)"
    unfolding s by blast
  with assms Inr show ?thesis by (simp add: validate_plugin_def)
qed

lemma validate_plugin_invalid_result:
  assumes "check_required_files d n (st, True) = (st1, False)"
      and "validate_plugin (n, d) st = Inr (st', ok)"
  shows "\<not> ok \<and> validated_plugins st' = validated_plugins st1
     \<and> (\<exists>es ws. errors st' = errors st1 @ es \<and> warnings st' = warnings st1 @ ws)"
proof (cases "check_optional_dirs d n OPTIONAL_DIRS (st1, False)")
  case (Inl e)
  with validate_plugin_invalid [OF assms(1)] assms(2) show ?thesis by simp
next
  case (Inr s)
  from logs_exn_False [OF logs_exn_check_optional_dirs Inr]
  obtain es ws where s: "s = (extend es ws st1, False)" by blast
  from logs_False [OF logs_fold_optional_files, of d n OPTIONAL_FILES "extend es ws st1"]
  obtain es' ws' where f: "fold (check_optional_file d n) OPTIONAL_FILES s = (extend es' ws' (extend es ws st1), False)"
    unfolding s by blast
  from validate_plugin_invalid [OF assms(1)] assms(2) Inr f
  have "st' = extend (es @ es') (ws @ ws') st1" "\<not> ok" by simp_all
  then show ?thesis by simp
qed

lemma absent_subset_bad:
  "map_of kv f = None \<Longrightarrow> \<not> required_ok kv f"
  by (simp add: required_ok_def)

lemma manifest_object_invalid:
  assumes bad: "filter (\<lambda>f. \<not> required_ok kv f) PLUGIN_JSON_REQUIRED_FIELDS \<noteq> []"
  shows "snd (validate_manifest_data (JObj kv) n st) = False"
proof (cases "filter (\<lambda>f. map_of kv f = None) PLUGIN_JSON_REQUIRED_FIELDS = []")
  case False
  then show ?thesis by (simp add: validate_manifest_data_absent)
next
  case True
  from bad have "check_required_types kv n (st, True) =
     (extend (map (must_be_nonempty n) (filter (\<lambda>f. \<not> required_ok kv f) PLUGIN_JSON_REQUIRED_FIELDS)) [] st, False)"
    by (simp add: check_required_types_eq)
  moreover from logs_False [OF logs_check_optional_fields]
  obtain es ws where "check_optional_fields kv n
     (extend (map (must_be_nonempty n) (filter (\<lambda>f. \<not> required_ok kv f) PLUGIN_JSON_REQUIRED_FIELDS)) [] st, False)
     = (extend es ws (extend (map (must_be_nonempty n) (filter (\<lambda>f. \<not> required_ok kv f) PLUGIN_JSON_REQUIRED_FIELDS)) [] st), False)"
    by blast
  ultimately show ?thesis by (simp add: validate_manifest_data_present [OF True])
qed

lemma validate_manifest_data_validated [simp]:
  "validated_plugins (fst (validate_manifest_data data n (st :: vstate))) = validated_plugins st"
proof -
  from checks_validate_manifest_data [of data n, where ?'a = "unit vstate_ext"]
  obtain es ws where "\<And>st :: vstate. validate_manifest_data data n st = (extend es ws st, es = [])"
    unfolding checks_def by blast
  then show ?thesis by simp
qed




lemma manifest_not_object_invalid:
  "\<not> (\<exists>kv. data = JObj kv) \<Longrightarrow> \<exists>m. validate_manifest_data data n st = (add_error m st, False)"
  by (cases data) (auto simp: validate_manifest_data_def split: sum.splits)


section \<open>Claims about the schema validator\<close>

text \<open>
  C1, as stated, fails: a missing field ends the validation of the manifest. With
  \<open>description\<close> missing and \<open>name\<close> empty there are two offending fields and one error,
  which names \<open>description\<close> only.
\<close>

theorem missing_field_short_circuits_counterexample:
  "validate_plugin_json
     (File (Loaded (JObj [(py ''name'', JStr []), (py ''version'', JStr (py ''1''))])))
     (py ''p'') \<lparr>errors = [], warnings = []\<rparr>
   = (\<lparr>errors = [py ''[p] plugin.json missing required fields: description''], warnings = []\<rparr>, False)
   \<and> filter (\<lambda>f. \<not> required_ok [(py ''name'', JStr []), (py ''version'', JStr (py ''1''))] f)
        PLUGIN_JSON_REQUIRED_FIELDS = [py ''name'', py ''description'']"
  by (simp add: validator_eval)

text \<open>
  C1, amended. For a manifest that is a JSON object: if some of \<open>name\<close>, \<open>version\<close>,
  \<open>description\<close> are absent, the validator reports exactly one error, which lists all
  absent fields, and checks nothing else of the manifest. If all three are present, it
  reports one error for each of them that is not a non-empty string, in the order of the
  fields and each with its own text, before any error about an optional field; none of
  the later errors has such a text. In both cases the plugin is not added to the
  validated set. A manifest that loads as JSON of another type than an object has no
  fields: it gets exactly one error, and the plugin is not added to the validated set
  either.
\<close>

theorem required_field_errors:
  "(filter (\<lambda>f. map_of kv f = None) PLUGIN_JSON_REQUIRED_FIELDS \<noteq> [] \<longrightarrow>
      validate_manifest_data (JObj kv) n st =
        (add_error (tag n @ py ''plugin.json missing required fields: ''
           @ join (py '', '') (filter (\<lambda>f. map_of kv f = None) PLUGIN_JSON_REQUIRED_FIELDS)) st, False))
   \<and> (filter (\<lambda>f. map_of kv f = None) PLUGIN_JSON_REQUIRED_FIELDS = [] \<longrightarrow>
        (\<exists>rest. list_all (\<lambda>m. m \<notin> must_be_nonempty n ` set PLUGIN_JSON_REQUIRED_FIELDS) rest
           \<and> errors (fst (validate_manifest_data (JObj kv) n st)) = errors st
               @ map (must_be_nonempty n) (filter (\<lambda>f. \<not> required_ok kv f) PLUGIN_JSON_REQUIRED_FIELDS)
               @ rest
           \<and> (snd (validate_manifest_data (JObj kv) n st) \<longleftrightarrow>
                filter (\<lambda>f. \<not> required_ok kv f) PLUGIN_JSON_REQUIRED_FIELDS = [] \<and> rest = [])))
   \<and> distinct (map (must_be_nonempty n) (filter (\<lambda>f. \<not> required_ok kv f) PLUGIN_JSON_REQUIRED_FIELDS))
   \<and> (filter (\<lambda>f. \<not> required_ok kv f) PLUGIN_JSON_REQUIRED_FIELDS \<noteq> []
        \<and> resolve d manifest_path = Some file \<and> load_json file = Loaded (JObj kv)
        \<and> validate_plugin (n, d) vst = Inr (vst', ok)
      \<longrightarrow> \<not> ok \<and> validated_plugins vst' = validated_plugins vst)
   \<and> (\<not> (\<exists>kv. data = JObj kv) \<longrightarrow>
        (\<exists>m. validate_manifest_data data n st = (add_error m st, False)))
   \<and> (\<not> (\<exists>kv. data = JObj kv)
        \<and> resolve d manifest_path = Some file \<and> load_json file = Loaded data
        \<and> validate_plugin (n, d) vst = Inr (vst', ok)
      \<longrightarrow> \<not> ok \<and> validated_plugins vst' = validated_plugins vst)"
proof (intro conjI impI)
  assume "filter (\<lambda>f. map_of kv f = None) PLUGIN_JSON_REQUIRED_FIELDS \<noteq> []"
  then show "validate_manifest_data (JObj kv) n st =
        (add_error (tag n @ py ''plugin.json missing required fields: ''
           @ join (py '', '') (filter (\<lambda>f. map_of kv f = None) PLUGIN_JSON_REQUIRED_FIELDS)) st, False)"
    by (rule validate_manifest_data_absent)
next
  assume present: "filter (\<lambda>f. map_of kv f = None) PLUGIN_JSON_REQUIRED_FIELDS = []"
  let ?bad = "filter (\<lambda>f. \<not> required_ok kv f) PLUGIN_JSON_REQUIRED_FIELDS"
  from logs_check_optional_fields [of n kv, where ?'a = 'a]
  obtain rest ws where rest: "list_all (\<lambda>m. m \<notin> must_be_nonempty n ` set PLUGIN_JSON_REQUIRED_FIELDS) rest"
    and opt: "\<And>(st :: 'a report_scheme) ok. check_optional_fields kv n (st, ok) = (extend rest ws st, ok \<and> rest = [])"
    unfolding logs_def by blast
  have "validate_manifest_data (JObj kv) n st =
      (extend rest ws (extend (map (must_be_nonempty n) ?bad) [] st), ?bad = [] \<and> rest = [])"
    by (simp add: validate_manifest_data_present [OF present] check_required_types_eq opt)
  with rest show "\<exists>rest. list_all (\<lambda>m. m \<notin> must_be_nonempty n ` set PLUGIN_JSON_REQUIRED_FIELDS) rest
           \<and> errors (fst (validate_manifest_data (JObj kv) n st)) = errors st
               @ map (must_be_nonempty n) ?bad @ rest
           \<and> (snd (validate_manifest_data (JObj kv) n st) \<longleftrightarrow> ?bad = [] \<and> rest = [])"
    by (intro exI [of _ rest]) simp
next
  show "distinct (map (must_be_nonempty n) (filter (\<lambda>f. \<not> required_ok kv f) PLUGIN_JSON_REQUIRED_FIELDS))"
    by (simp add: distinct_map inj_on_def PLUGIN_JSON_REQUIRED_FIELDS_def)
next
  assume a: "filter (\<lambda>f. \<not> required_ok kv f) PLUGIN_JSON_REQUIRED_FIELDS \<noteq> []
        \<and> resolve d manifest_path = Some file \<and> load_json file = Loaded (JObj kv)
        \<and> validate_plugin (n, d) vst = Inr (vst', ok)"
  then have crf: "check_required_files d n (vst, True) =
      (fst (validate_manifest_data (JObj kv) n vst), False)"
    using manifest_object_invalid [of kv n vst]
    by (auto simp: check_required_files_def validate_plugin_json_def split: prod.splits)
  from validate_plugin_invalid_result [OF crf] a
  show "\<not> ok" and "validated_plugins vst' = validated_plugins vst" by simp_all
next
  assume "\<not> (\<exists>kv. data = JObj kv)"
  then show "\<exists>m. validate_manifest_data data n st = (add_error m st, False)"
    by (rule manifest_not_object_invalid)
next
  assume a: "\<not> (\<exists>kv. data = JObj kv)
        \<and> resolve d manifest_path = Some file \<and> load_json file = Loaded data
        \<and> validate_plugin (n, d) vst = Inr (vst', ok)"
  then obtain m where "validate_manifest_data data n vst = (add_error m vst, False)"
    using manifest_not_object_invalid [of data n vst] by blast
  with a have crf: "check_required_files d n (vst, True) = (add_error m vst, False)"
    by (simp add: check_required_files_def validate_plugin_json_def)
  from validate_plugin_invalid_result [OF crf] a
  show "\<not> ok" and "validated_plugins vst' = validated_plugins vst"
    by (simp_all add: add_error_def)
qed

text \<open>All three fields present and two of the wrong kind; two fields absent; a plugin
  directory whose manifest has an empty \<open>name\<close>; and one whose manifest is a list of the
  three names.\<close>

theorem required_field_errors_witness:
  "validate_manifest_data (JObj [(py ''name'', JStr []), (py ''version'', JInt 1),
        (py ''description'', JStr (py ''d''))]) (py ''p'') \<lparr>errors = [], warnings = []\<rparr>
   = (\<lparr>errors = [py ''[p] plugin.json 'name' must be a non-empty string'',
                  py ''[p] plugin.json 'version' must be a non-empty string''], warnings = []\<rparr>, False)
   \<and> validate_manifest_data (JObj [(py ''version'', JInt 1)]) (py ''p'') \<lparr>errors = [], warnings = []\<rparr>
   = (\<lparr>errors = [py ''[p] plugin.json missing required fields: name, description''],
        warnings = []\<rparr>, False)
   \<and> validate_plugin (py ''p'', Dir [(py ''.claude-plugin'', Dir [(py ''plugin.json'',
          File (Loaded (JObj [(py ''name'', JStr []), (py ''version'', JStr (py ''1'')),
             (py ''description'', JStr (py ''d''))])))])])
        \<lparr>errors = [], warnings = [], validated_plugins = {}\<rparr>
   = Inr (\<lparr>errors = [py ''[p] plugin.json 'name' must be a non-empty string''], warnings = [],
           validated_plugins = {}\<rparr>, False)
   \<and> validate_plugin (py ''p'', Dir [(py ''.claude-plugin'', Dir [(py ''plugin.json'',
          File (Loaded (JArr [JStr (py ''name''), JStr (py ''version''),
             JStr (py ''description'')])))])])
        \<lparr>errors = [], warnings = [], validated_plugins = {}\<rparr>
   = Inr (\<lparr>errors = [py ''[p] Error reading plugin.json: 'list' object has no attribute 'get'' @ [39]],
           warnings = [], validated_plugins = {}\<rparr>, False)"
proof -
  let ?arr = "JArr [JStr (py ''name''), JStr (py ''version''), JStr (py ''description'')]"
  let ?d4 = "Dir [(py ''.claude-plugin'', Dir [(py ''plugin.json'', File (Loaded ?arr))])]"
  let ?kv = "[(py ''name'', JStr []), (py ''version'', JInt 1), (py ''description'', JStr (py ''d''))]"
  let ?kv3 = "[(py ''name'', JStr []), (py ''version'', JStr (py ''1'')),
             (py ''description'', JStr (py ''d''))]"
  let ?d = "Dir [(py ''.claude-plugin'', Dir [(py ''plugin.json'', File (Loaded (JObj ?kv3)))])]"
  let ?st = "\<lparr>errors = [], warnings = []\<rparr>"
  let ?vst = "\<lparr>errors = [], warnings = [], validated_plugins = {}\<rparr>"
  have 1: "validate_manifest_data (JObj ?kv) (py ''p'') ?st
     = (\<lparr>errors = [py ''[p] plugin.json 'name' must be a non-empty string'',
                  py ''[p] plugin.json 'version' must be a non-empty string''], warnings = []\<rparr>, False)"
    by (simp add: validator_eval)
  have p: "filter (\<lambda>f. map_of ?kv f = None) PLUGIN_JSON_REQUIRED_FIELDS = []"
    by (simp add: PLUGIN_JSON_REQUIRED_FIELDS_def)
  have a: "filter (\<lambda>f. map_of [(py ''version'', JInt 1)] f = None) PLUGIN_JSON_REQUIRED_FIELDS
     = [py ''name'', py ''description'']"
    by (simp add: PLUGIN_JSON_REQUIRED_FIELDS_def)
  from required_field_errors [of "[(py ''version'', JInt 1)]" "py ''p''" ?st]
  have 2: "validate_manifest_data (JObj [(py ''version'', JInt 1)]) (py ''p'') ?st
   = (\<lparr>errors = [py ''[p] plugin.json missing required fields: name, description''],
        warnings = []\<rparr>, False)"
    unfolding a by (simp add: add_error_def tag_def)
  have b: "filter (\<lambda>f. \<not> required_ok ?kv3 f) PLUGIN_JSON_REQUIRED_FIELDS \<noteq> []"
    by (simp add: PLUGIN_JSON_REQUIRED_FIELDS_def required_ok_def)
  have m: "resolve ?d manifest_path = Some (File (Loaded (JObj ?kv3)))"
    "load_json (File (Loaded (JObj ?kv3))) = Loaded (JObj ?kv3)"
    by (simp_all add: manifest_path_def)
  have 3: "validate_plugin (py ''p'', ?d) ?vst
     = Inr (\<lparr>errors = [py ''[p] plugin.json 'name' must be a non-empty string''], warnings = [],
           validated_plugins = {}\<rparr>, False)"
    by (simp add: validator_eval)
  have 4: "validate_plugin (py ''p'', ?d4) ?vst
     = Inr (\<lparr>errors = [py ''[p] Error reading plugin.json: 'list' object has no attribute 'get'' @ [39]],
           warnings = [], validated_plugins = {}\<rparr>, False)"
    by (simp add: validator_eval)
  have m4: "\<not> (\<exists>kv. ?arr = JObj kv)" "resolve ?d4 manifest_path = Some (File (Loaded ?arr))"
    "load_json (File (Loaded ?arr)) = Loaded ?arr"
    by (simp_all add: manifest_path_def)
  from required_field_errors [of ?kv "py ''p''" ?st] p
       required_field_errors [of ?kv3 "py ''p''" ?st ?d "File (Loaded (JObj ?kv3))" ?vst] b m
       required_field_errors [of _ "py ''p''" ?st ?d4 "File (Loaded ?arr)" ?vst _ False ?arr] m4
       1 2 3 4
  show ?thesis by blast
qed






text \<open>
  C8. A plugin directory with a manifest that is a JSON object with the three required
  fields as non-empty strings and no other key, and with none of the optional directories
  and files, validates with no error and no warning: the report is unchanged, and the
  plugin is added to the validated set.
\<close>

theorem minimal_manifest_valid:
  assumes manifest: "resolve d manifest_path = Some file" "load_json file = Loaded (JObj kv)"
      and required: "\<forall>f \<in> set PLUGIN_JSON_REQUIRED_FIELDS. required_ok kv f"
      and only: "fst ` set kv \<subseteq> set PLUGIN_JSON_REQUIRED_FIELDS"
      and nothing_else: "\<forall>x \<in> set OPTIONAL_DIRS \<union> set OPTIONAL_FILES. child d x = None"
  shows "validate_plugin (n, d) st =
     Inr (st\<lparr>validated_plugins := insert n (validated_plugins st)\<rparr>, True)"
proof -
  have none: "map_of kv k = None" if "k \<notin> set PLUGIN_JSON_REQUIRED_FIELDS" for k
    using only that by (auto simp: map_of_eq_None_iff)
  have opt: "map_of kv (py ''author'') = None" "map_of kv (py ''homepage'') = None"
    "map_of kv (py ''repository'') = None" "map_of kv (py ''license'') = None"
    "map_of kv (py ''keywords'') = None" "map_of kv (py ''commands'') = None"
    "map_of kv (py ''agents'') = None" "map_of kv (py ''hooks'') = None"
    "map_of kv (py ''mcpServers'') = None"
    by (rule none, simp add: PLUGIN_JSON_REQUIRED_FIELDS_def)+
  from required have present: "filter (\<lambda>f. map_of kv f = None) PLUGIN_JSON_REQUIRED_FIELDS = []"
    using absent_subset_bad [of kv] by (fastforce simp: filter_empty_conv)
  from required have good: "filter (\<lambda>f. \<not> required_ok kv f) PLUGIN_JSON_REQUIRED_FIELDS = []"
    by (auto simp: filter_empty_conv)
  have "check_optional_fields kv n (st, True) = (st, True)"
    using opt by (simp add: check_optional_fields_def check_author_def check_optional_str_def
        check_keywords_def check_commands_def)
  then have vmd: "validate_manifest_data (JObj kv) n st = (st, True)"
    by (simp add: validate_manifest_data_present [OF present] check_required_types_eq good)
  have crf: "check_required_files d n (st, True) = (st, True)"
    using manifest vmd by (simp add: check_required_files_def validate_plugin_json_def)
  have dirs: "check_optional_dirs d n OPTIONAL_DIRS (st, True) = Inr (st, True)"
    using nothing_else by (simp add: OPTIONAL_DIRS_def OPTIONAL_FILES_def check_optional_dir_def)
  have files: "fold (check_optional_file d n) OPTIONAL_FILES (st, True) = (st, True)"
    using nothing_else by (simp add: OPTIONAL_DIRS_def OPTIONAL_FILES_def check_optional_file_def)
  show ?thesis by (simp add: validate_plugin_def crf dirs files)
qed

theorem minimal_manifest_valid_witness:
  "validate_plugin (py ''demo'',
      Dir [(py ''.claude-plugin'', Dir [(py ''plugin.json'', File (Loaded (JObj
             [(py ''name'', JStr (py ''demo'')), (py ''version'', JStr (py ''1.0.0'')),
              (py ''description'', JStr (py ''A demo''))])))])])
     \<lparr>errors = [], warnings = [], validated_plugins = {}\<rparr>
   = Inr (\<lparr>errors = [], warnings = [], validated_plugins = {py ''demo''}\<rparr>, True)"
proof -
  let ?kv = "[(py ''name'', JStr (py ''demo'')), (py ''version'', JStr (py ''1.0.0'')),
              (py ''description'', JStr (py ''A demo''))]"
  let ?d = "Dir [(py ''.claude-plugin'', Dir [(py ''plugin.json'', File (Loaded (JObj ?kv)))])]"
  have 1: "resolve ?d manifest_path = Some (File (Loaded (JObj ?kv)))"
    by (simp add: manifest_path_def)
  have 2: "load_json (File (Loaded (JObj ?kv))) = Loaded (JObj ?kv)" by simp
  have 3: "\<forall>f \<in> set PLUGIN_JSON_REQUIRED_FIELDS. required_ok ?kv f"
    by (simp add: PLUGIN_JSON_REQUIRED_FIELDS_def required_ok_def)
  have 4: "fst ` set ?kv \<subseteq> set PLUGIN_JSON_REQUIRED_FIELDS"
    by (simp add: PLUGIN_JSON_REQUIRED_FIELDS_def)
  have 5: "\<forall>x \<in> set OPTIONAL_DIRS \<union> set OPTIONAL_FILES. child ?d x = None"
    by (simp add: OPTIONAL_DIRS_def OPTIONAL_FILES_def)
  from minimal_manifest_valid [OF 1 2 3 4 5, of "py ''demo''"
         "\<lparr>errors = [], warnings = [], validated_plugins = {}\<rparr>"]
  show ?thesis by simp
qed

end
